theory Spec2Isabelle
  imports Main
begin

section \<open>Python values\<close>

text \<open>
  The module \<^verbatim>\<open>formulaic/parser/types/structured.py\<close> defines one class,
  \<^verbatim>\<open>Structured\<close>: an insertion-ordered dictionary \<^verbatim>\<open>_structure\<close> from
  keys to arbitrary Python objects, a set \<^verbatim>\<open>_mapped_attrs\<close> and an opaque
  \<^verbatim>\<open>_metadata\<close>. The objects stored in it are modelled by a closed universe of
  Python values: \<^verbatim>\<open>None\<close>, integers, strings, tuples, lists, dictionaries with
  string keys (what \<^verbatim>\<open>_to_dict\<close> returns), sets of strings (what
  \<^verbatim>\<open>_mapped_attrs\<close> holds) and \<^verbatim>\<open>Structured\<close> instances themselves.
  A string is a list of characters, each a code point below 256; the characters
  below 128 are the ASCII characters.

  A Python \<^verbatim>\<open>dict\<close> is an association list in insertion order; a real dictionary
  never has a key twice, which is part of the well-formedness predicate below.
  Exceptions are values of the type \<open>error\<close>, and a fallible operation returns
  \<open>error + 'a\<close> with \<open>Inl\<close> for the raised exception.
\<close>

datatype error = ValueError | KeyError | AttributeError | RuntimeError | TypeError | IndexError

datatype pyval =
    PNone
  | PInt int
  | PStr string
  | PTuple "pyval list"
  | PList "pyval list"
  | PDict "(string \<times> pyval) list"
  | PStrSet "string set"
  | PStructured structured
and structured =
    Structured (structure_of: "(string \<times> pyval) list") (mapped_attrs: "string set") (metadata: pyval)

type_synonym dict = "(string \<times> pyval) list"

subsection \<open>Dictionaries in insertion order\<close>

text \<open>
  \<^verbatim>\<open>d[k] = v\<close>: an existing key keeps its position and takes the new value, a new
  key is appended. Reading \<^verbatim>\<open>d[k]\<close> is \<^const>\<open>map_of\<close>; \<^verbatim>\<open>k in d\<close> is membership
  in \<open>map fst d\<close>.
\<close>

fun dict_set :: "'k \<Rightarrow> 'v \<Rightarrow> ('k \<times> 'v) list \<Rightarrow> ('k \<times> 'v) list" where
  "dict_set k v [] = [(k, v)]"
| "dict_set k v ((k', v') # kvs) =
     (if k' = k then (k, v) # kvs else (k', v') # dict_set k v kvs)"

text \<open>\<^verbatim>\<open>{**a, **b}\<close>: the items of \<open>b\<close> are written into \<open>a\<close> from left to right.\<close>

definition dict_merge :: "('k \<times> 'v) list \<Rightarrow> ('k \<times> 'v) list \<Rightarrow> ('k \<times> 'v) list" where
  "dict_merge a b = fold (\<lambda>kv d. dict_set (fst kv) (snd kv) d) b a"

definition keys :: "('k \<times> 'v) list \<Rightarrow> 'k list" where
  "keys d = map fst d"

subsection \<open>Built-in operations on values\<close>

text \<open>\<^verbatim>\<open>s.startswith(p)\<close>.\<close>

definition startswith :: "string \<Rightarrow> string \<Rightarrow> bool" where
  "startswith s p = (take (length p) s = p)"

text \<open>
  \<^verbatim>\<open>s.isidentifier()\<close>: the string is not empty, its first character is in the
  Unicode class XID_Start or is an underscore, and every other character is in
  XID_Continue. Among the ASCII characters XID_Start holds the letters, and
  XID_Continue the letters, the digits and the underscore. For the characters from
  128 on the two classes are tables of the Unicode database, which is no part of
  this repository: they are the parameters \<open>xid_start\<close> and \<open>xid_continue\<close>.
\<close>

definition ascii_letter :: "char \<Rightarrow> bool" where
  "ascii_letter c = (let n = (of_char c :: nat) in (65 \<le> n \<and> n \<le> 90) \<or> (97 \<le> n \<and> n \<le> 122))"

definition ascii_digit :: "char \<Rightarrow> bool" where
  "ascii_digit c = (let n = (of_char c :: nat) in 48 \<le> n \<and> n \<le> 57)"

definition is_xid_start :: "(char \<Rightarrow> bool) \<Rightarrow> char \<Rightarrow> bool" where
  "is_xid_start xid_start c =
     (if (of_char c :: nat) < 128 then ascii_letter c else xid_start c)"

definition is_xid_continue :: "(char \<Rightarrow> bool) \<Rightarrow> char \<Rightarrow> bool" where
  "is_xid_continue xid_continue c =
     (if (of_char c :: nat) < 128 then ascii_letter c \<or> ascii_digit c \<or> c = CHR ''_''
      else xid_continue c)"

fun isidentifier :: "(char \<Rightarrow> bool) \<Rightarrow> (char \<Rightarrow> bool) \<Rightarrow> string \<Rightarrow> bool" where
  "isidentifier xid_start xid_continue [] = False"
| "isidentifier xid_start xid_continue (c # cs) =
     ((is_xid_start xid_start c \<or> c = CHR ''_'') \<and> list_all (is_xid_continue xid_continue) cs)"

text \<open>\<^verbatim>\<open>isinstance(v, Structured)\<close> and \<^verbatim>\<open>isinstance(v, Sequence)\<close>.\<close>

fun is_structured :: "pyval \<Rightarrow> bool" where
  "is_structured (PStructured s) = True"
| "is_structured v = False"

fun is_sequence :: "pyval \<Rightarrow> bool" where
  "is_sequence (PTuple xs) = True"
| "is_sequence (PList xs) = True"
| "is_sequence (PStr cs) = True"
| "is_sequence v = False"

text \<open>The items a sequence yields when it is iterated; a string yields its characters.\<close>

fun seq_elems :: "pyval \<Rightarrow> pyval list" where
  "seq_elems (PTuple xs) = xs"
| "seq_elems (PList xs) = xs"
| "seq_elems (PStr cs) = map (\<lambda>c. PStr [c]) cs"
| "seq_elems v = []"

text \<open>
  \<^verbatim>\<open>xs[i]\<close> on a sequence: a negative index counts from the end, an index out
  of range raises \<^verbatim>\<open>IndexError\<close>.
\<close>

definition seq_index :: "'a list \<Rightarrow> int \<Rightarrow> error + 'a" where
  "seq_index xs i =
     (if 0 \<le> i \<and> i < int (length xs) then Inr (xs ! nat i)
      else if i < 0 \<and> 0 \<le> int (length xs) + i then Inr (xs ! nat (int (length xs) + i))
      else Inl IndexError)"

text \<open>
  \<^verbatim>\<open>hash(v)\<close> succeeds: lists, dictionaries and sets are unhashable, and so is a
  \<^verbatim>\<open>Structured\<close>, whose class defines \<^verbatim>\<open>__eq__\<close> and no \<^verbatim>\<open>__hash__\<close>.
\<close>

fun hashable :: "pyval \<Rightarrow> bool" where
  "hashable PNone = True"
| "hashable (PInt n) = True"
| "hashable (PStr cs) = True"
| "hashable (PTuple xs) = list_all hashable xs"
| "hashable v = False"

section \<open>The class Structured\<close>

text \<open>\<^verbatim>\<open>_prepare_item\<close>: the hook of subclasses; the class itself stores the item as it is.\<close>

definition prepare_item :: "string \<Rightarrow> pyval \<Rightarrow> pyval" where
  "prepare_item k item = item"

text \<open>The properties \<^verbatim>\<open>_has_root\<close> and \<^verbatim>\<open>_has_structure\<close>.\<close>

definition has_root :: "structured \<Rightarrow> bool" where
  "has_root s = (''root'' \<in> set (keys (structure_of s)))"

definition has_structure :: "structured \<Rightarrow> bool" where
  "has_structure s = (set (keys (structure_of s)) \<noteq> {''root''})"

text \<open>
  \<^verbatim>\<open>self.root\<close> goes through \<^verbatim>\<open>__getattr__\<close> and, the key being present, returns
  \<^verbatim>\<open>self._structure["root"]\<close>. The source reads it only behind \<^verbatim>\<open>self._has_root\<close>;
  the model reads the slot as an option, \<open>None\<close> when there is no root.
\<close>

definition root :: "structured \<Rightarrow> pyval option" where
  "root s = map_of (structure_of s) ''root''"

text \<open>\<^verbatim>\<open>__len__\<close>.\<close>

definition len :: "structured \<Rightarrow> nat" where
  "len s = length (structure_of s)"

subsection \<open>Iteration\<close>

text \<open>
  \<^verbatim>\<open>__iter__\<close>: the generator's items as a list. The \<^verbatim>\<open>if\<close>/\<^verbatim>\<open>elif\<close> yields the
  root (flattened when it is a sequence and there is no other structure), and the
  \<^verbatim>\<open>for\<close> loop after it always runs and yields the value of every key but
  \<^verbatim>\<open>"root"\<close>.
\<close>

definition iter :: "structured \<Rightarrow> pyval list" where
  "iter s =
     (case root s of
        Some r \<Rightarrow> if \<not> has_structure s \<and> is_sequence r then seq_elems r else [r]
      | None \<Rightarrow> [])
     @ map snd (filter (\<lambda>kv. fst kv \<noteq> ''root'') (structure_of s))"

subsection \<open>Bracket read\<close>

text \<open>
  A value read from a dictionary is smaller than the dictionary: the measure of the
  recursions that follow a slot's value.
\<close>

lemma size_map_of:
  "map_of d k = Some v \<Longrightarrow> size v < Suc (size_list (size_prod (\<lambda>_. 0) size) d)"
  by (induction d) (auto split: if_splits)

lemma size_root:
  "root s = Some r \<Longrightarrow> size r < size s"
  by (cases s) (auto simp: root_def dest: size_map_of)

text \<open>
  \<^verbatim>\<open>__getitem__\<close>, together with \<^verbatim>\<open>obj[key]\<close> on the values of the universe,
  which the first branch forwards to: \<^verbatim>\<open>self.root[key]\<close>. A tuple, a list and a
  string take an integer index, a dictionary takes a hashable key, and \<^verbatim>\<open>None\<close>,
  an integer and a set are not subscriptable. \<^verbatim>\<open>key in (None, "root")\<close> compares
  with \<^verbatim>\<open>==\<close>, which only \<^verbatim>\<open>None\<close> and the string \<^verbatim>\<open>"root"\<close> satisfy.
\<close>

function getitem :: "structured \<Rightarrow> pyval \<Rightarrow> error + pyval"
  and subscript :: "pyval \<Rightarrow> pyval \<Rightarrow> error + pyval" where
  "getitem s key =
     (if has_root s \<and> \<not> has_structure s then
        (case root s of Some r \<Rightarrow> subscript r key | None \<Rightarrow> Inl AttributeError)
      else if (key = PNone \<or> key = PStr ''root'') \<and> has_root s then
        (case root s of Some r \<Rightarrow> Inr r | None \<Rightarrow> Inl AttributeError)
      else
        (case key of
           PStr k \<Rightarrow>
             if \<not> startswith k ''_'' \<and> k \<in> set (keys (structure_of s)) then
               (case map_of (structure_of s) k of Some v \<Rightarrow> Inr v | None \<Rightarrow> Inl KeyError)
             else Inl KeyError
         | _ \<Rightarrow> Inl KeyError))"
| "subscript (PStructured s) key = getitem s key"
| "subscript (PTuple xs) key = (case key of PInt i \<Rightarrow> seq_index xs i | _ \<Rightarrow> Inl TypeError)"
| "subscript (PList xs) key = (case key of PInt i \<Rightarrow> seq_index xs i | _ \<Rightarrow> Inl TypeError)"
| "subscript (PStr cs) key =
     (case key of
        PInt i \<Rightarrow> (case seq_index cs i of Inl e \<Rightarrow> Inl e | Inr c \<Rightarrow> Inr (PStr [c]))
      | _ \<Rightarrow> Inl TypeError)"
| "subscript (PDict d) key =
     (if \<not> hashable key then Inl TypeError
      else case key of
             PStr k \<Rightarrow> (case map_of d k of Some v \<Rightarrow> Inr v | None \<Rightarrow> Inl KeyError)
           | _ \<Rightarrow> Inl KeyError)"
| "subscript PNone key = Inl TypeError"
| "subscript (PInt n) key = Inl TypeError"
| "subscript (PStrSet S) key = Inl TypeError"
  by pat_completeness auto
termination
  by (relation "measure (\<lambda>x. case x of Inl (s, key) \<Rightarrow> 2 * size s | Inr (v, key) \<Rightarrow> 2 * size v + 1)")
     (auto dest: size_root)

subsection \<open>Bracket write\<close>

text \<open>
  \<^verbatim>\<open>self._structure = d\<close>, and \<^verbatim>\<open>__setitem__\<close>. A write that raises leaves
  the container as it was; a write that succeeds returns the container after it.
  The first two arguments are the Unicode tables \<^verbatim>\<open>key.isidentifier()\<close> reads.
\<close>

definition set_structure :: "structured \<Rightarrow> dict \<Rightarrow> structured" where
  "set_structure s d = Structured d (mapped_attrs s) (metadata s)"

definition setitem ::
  "(char \<Rightarrow> bool) \<Rightarrow> (char \<Rightarrow> bool) \<Rightarrow> structured \<Rightarrow> pyval \<Rightarrow> pyval \<Rightarrow> error + structured" where
  "setitem xid_start xid_continue s key v =
     (case key of
        PStr k \<Rightarrow>
          if \<not> isidentifier xid_start xid_continue k then Inl KeyError
          else if startswith k ''_'' then Inl KeyError
          else Inr (set_structure s (dict_set k (prepare_item k v) (structure_of s)))
      | _ \<Rightarrow> Inl KeyError)"

subsection \<open>Construction\<close>

text \<open>
  \<^verbatim>\<open>__init__\<close> evaluates \<^verbatim>\<open>set(_mapped_attrs or ())\<close>: the truth value of the
  argument (a \<^verbatim>\<open>Structured\<close> has \<^verbatim>\<open>__len__\<close> and no \<^verbatim>\<open>__bool__\<close>), then
  the set of the items it yields, each of which must be hashable. The class only
  ever asks whether an attribute name, a string, is in the set, so the model keeps
  the strings among the items.
\<close>

fun truthy :: "pyval \<Rightarrow> bool" where
  "truthy PNone = False"
| "truthy (PInt n) = (n \<noteq> 0)"
| "truthy (PStr cs) = (cs \<noteq> [])"
| "truthy (PTuple xs) = (xs \<noteq> [])"
| "truthy (PList xs) = (xs \<noteq> [])"
| "truthy (PDict d) = (d \<noteq> [])"
| "truthy (PStrSet S) = (S \<noteq> {})"
| "truthy (PStructured s) = (len s \<noteq> 0)"

definition str_members :: "pyval list \<Rightarrow> string set" where
  "str_members xs = set (concat (map (\<lambda>v. case v of PStr k \<Rightarrow> [k] | _ \<Rightarrow> []) xs))"

definition set_of_items :: "pyval list \<Rightarrow> error + string set" where
  "set_of_items xs = (if list_all hashable xs then Inr (str_members xs) else Inl TypeError)"

fun py_set :: "pyval \<Rightarrow> error + string set" where
  "py_set PNone = Inl TypeError"
| "py_set (PInt n) = Inl TypeError"
| "py_set (PStr cs) = Inr (set (map (\<lambda>c. [c]) cs))"
| "py_set (PTuple xs) = set_of_items xs"
| "py_set (PList xs) = set_of_items xs"
| "py_set (PDict d) = Inr (set (keys d))"
| "py_set (PStrSet S) = Inr S"
| "py_set (PStructured s) = set_of_items (iter s)"

text \<open>
  \<^verbatim>\<open>__init__(self, root=_MISSING, *, _mapped_attrs=None, _metadata=None, **structure)\<close>.
  \<open>kwargs\<close> is the dictionary \<^verbatim>\<open>structure\<close> of the remaining keyword arguments;
  Python binds the keywords \<^verbatim>\<open>root\<close>, \<^verbatim>\<open>_mapped_attrs\<close> and \<^verbatim>\<open>_metadata\<close> to
  the parameters of those names, so \<open>kwargs\<close> has none of them and the root is
  written last. The check of the keys comes first, then \<^verbatim>\<open>set(...)\<close>, which may
  raise \<^verbatim>\<open>TypeError\<close>.
\<close>

definition init :: "pyval option \<Rightarrow> pyval \<Rightarrow> pyval \<Rightarrow> dict \<Rightarrow> error + structured" where
  "init root_arg mapped_attrs_arg metadata_arg kwargs =
     (if list_ex (\<lambda>k. startswith k ''_'') (keys kwargs) then Inl ValueError
      else
        let slots = (case root_arg of
                       None \<Rightarrow> kwargs
                     | Some r \<Rightarrow> dict_set ''root'' (prepare_item ''root'' r) kwargs)
        in case (if truthy mapped_attrs_arg then py_set mapped_attrs_arg else Inr {}) of
             Inl e \<Rightarrow> Inl e
           | Inr attrs \<Rightarrow>
               Inr (Structured (map (\<lambda>kv. (fst kv, prepare_item (fst kv) (snd kv))) slots)
                      attrs metadata_arg))"

text \<open>
  \<^verbatim>\<open>cls(**d)\<close>: the call with the dictionary \<open>d\<close> unpacked into keyword
  arguments. The keys named like a parameter are bound to it, the others make up
  \<^verbatim>\<open>structure\<close> in the order of \<open>d\<close>. The first parameter, \<^verbatim>\<open>self\<close>, is given
  by the call itself, so a key \<^verbatim>\<open>"self"\<close> is a second value for it: Python raises
  \<^verbatim>\<open>TypeError\<close> before the body of \<^verbatim>\<open>__init__\<close> runs.
\<close>

definition construct :: "dict \<Rightarrow> error + structured" where
  "construct d =
     (if ''self'' \<in> set (keys d) then Inl TypeError
      else
        init (map_of d ''root'')
          (case map_of d ''_mapped_attrs'' of Some v \<Rightarrow> v | None \<Rightarrow> PNone)
          (case map_of d ''_metadata'' of Some v \<Rightarrow> v | None \<Rightarrow> PNone)
          (filter (\<lambda>kv. fst kv \<notin> {''root'', ''_mapped_attrs'', ''_metadata''}) d))"

subsection \<open>Mapping a function over the structure\<close>

text \<open>
  \<^verbatim>\<open>_map(func, recurse)\<close>. The callable may raise, so it returns \<open>error + pyval\<close>;
  the comprehensions evaluate from left to right and the first exception ends the
  call. \<^verbatim>\<open>apply_func\<close> is the local function of the source: a nested
  \<^verbatim>\<open>Structured\<close> is mapped recursively when \<^verbatim>\<open>recurse\<close> holds, a tuple is mapped
  item by item, and anything else is given to \<^verbatim>\<open>func\<close>. The result is built by
  \<^verbatim>\<open>Structured[ItemType](**{...})\<close>, with the default \<^verbatim>\<open>_mapped_attrs\<close> and
  \<^verbatim>\<open>_metadata\<close>.
\<close>

fun map_tuple :: "(pyval \<Rightarrow> error + pyval) \<Rightarrow> pyval list \<Rightarrow> error + pyval list" where
  "map_tuple func [] = Inr []"
| "map_tuple func (x # xs) =
     (case func x of
        Inl e \<Rightarrow> Inl e
      | Inr y \<Rightarrow> (case map_tuple func xs of Inl e \<Rightarrow> Inl e | Inr ys \<Rightarrow> Inr (y # ys)))"

function (sequential) map_structured :: "(pyval \<Rightarrow> error + pyval) \<Rightarrow> bool \<Rightarrow> structured \<Rightarrow> error + structured"
  and apply_func :: "(pyval \<Rightarrow> error + pyval) \<Rightarrow> bool \<Rightarrow> pyval \<Rightarrow> error + pyval"
  and map_items :: "(pyval \<Rightarrow> error + pyval) \<Rightarrow> bool \<Rightarrow> dict \<Rightarrow> error + dict"
where
  "map_structured func recurse s =
     (case map_items func recurse (structure_of s) of
        Inl e \<Rightarrow> Inl e
      | Inr d \<Rightarrow> construct d)"
| "apply_func func recurse (PStructured s) =
     (if recurse then
        (case map_structured func True s of Inl e \<Rightarrow> Inl e | Inr s' \<Rightarrow> Inr (PStructured s'))
      else func (PStructured s))"
| "apply_func func recurse (PTuple xs) =
     (case map_tuple func xs of Inl e \<Rightarrow> Inl e | Inr ys \<Rightarrow> Inr (PTuple ys))"
| "apply_func func recurse v = func v"
| "map_items func recurse [] = Inr []"
| "map_items func recurse ((k, v) # kvs) =
     (case apply_func func recurse v of
        Inl e \<Rightarrow> Inl e
      | Inr v' \<Rightarrow>
          (case map_items func recurse kvs of
             Inl e \<Rightarrow> Inl e
           | Inr kvs' \<Rightarrow> Inr ((k, v') # kvs')))"
  by pat_completeness auto
termination
  by (relation "measure (\<lambda>x. case x of
         Inl (f, r, s) \<Rightarrow> 2 * size s
       | Inr (Inl (f, r, v)) \<Rightarrow> 2 * size v
       | Inr (Inr (f, r, kvs)) \<Rightarrow> Suc (2 * size_list (size_prod (\<lambda>_. 0) size) kvs))")
     (auto, case_tac s, auto)

subsection \<open>The dictionary of a structure\<close>

text \<open>
  \<^verbatim>\<open>_to_dict(recurse)\<close>; a nested \<^verbatim>\<open>Structured\<close> is converted by
  \<^verbatim>\<open>obj._to_dict()\<close>, with the default \<^verbatim>\<open>recurse=True\<close>.
\<close>

fun to_dict :: "bool \<Rightarrow> structured \<Rightarrow> dict"
  and do_recursion :: "bool \<Rightarrow> pyval \<Rightarrow> pyval"
  and to_dict_items :: "bool \<Rightarrow> dict \<Rightarrow> dict"
where
  "to_dict recurse (Structured d ma md) = to_dict_items recurse d"
| "do_recursion recurse (PStructured s) = (if recurse then PDict (to_dict True s) else PStructured s)"
| "do_recursion recurse v = v"
| "to_dict_items recurse [] = []"
| "to_dict_items recurse ((k, v) # kvs) = (k, do_recursion recurse v) # to_dict_items recurse kvs"


subsection \<open>Simplification\<close>

text \<open>
  The \<^verbatim>\<open>while\<close> loop of \<^verbatim>\<open>_simplify\<close>: \<^verbatim>\<open>structured = structured.root\<close> as long
  as \<^verbatim>\<open>structured\<close> is a \<^verbatim>\<open>Structured\<close> with a root, without other structure, and
  \<^verbatim>\<open>unwrap\<close> holds or the root is a \<^verbatim>\<open>Structured\<close>. The value it ends on is the
  result.
\<close>

function (sequential) unwrap_loop :: "bool \<Rightarrow> pyval \<Rightarrow> pyval" where
  "unwrap_loop unwrap (PStructured s) =
     (if has_root s \<and> \<not> has_structure s then
        (case root s of
           Some r \<Rightarrow> if unwrap \<or> is_structured r then unwrap_loop unwrap r else PStructured s
         | None \<Rightarrow> PStructured s)
      else PStructured s)"
| "unwrap_loop unwrap v = v"
  by pat_completeness auto
termination
  by (relation "measure (\<lambda>(u, v). size v)") (auto dest: size_root)

lemma size_unwrap_loop: "size (unwrap_loop u v) \<le> size v"
proof (induction u v rule: unwrap_loop.induct)
  case (1 unwrap s)
  show ?case
  proof (cases "root s")
    case None
    then show ?thesis by simp
  next
    case (Some r)
    have lt: "size r < size s" using Some by (rule size_root)
    show ?thesis
    proof (cases "has_root s \<and> \<not> has_structure s \<and> (unwrap \<or> is_structured r)")
      case True
      then have "size (unwrap_loop unwrap r) \<le> size r"
        using "1.IH" [of r] Some by blast
      with True Some lt show ?thesis by simp
    next
      case False
      with Some show ?thesis by auto
    qed
  qed
qed simp_all

text \<open>
  \<^verbatim>\<open>self.__class__(_mapped_attrs=self._mapped_attrs, _metadata=self._metadata, **structure)\<close>:
  a key of \<^verbatim>\<open>structure\<close> that repeats one of the two keywords is a \<^verbatim>\<open>TypeError\<close>
  of the call.
\<close>

definition construct_keeping :: "structured \<Rightarrow> dict \<Rightarrow> error + structured" where
  "construct_keeping self slots =
     (if ''_mapped_attrs'' \<in> set (keys slots) \<or> ''_metadata'' \<in> set (keys slots) then Inl TypeError
      else construct ((''_mapped_attrs'', PStrSet (mapped_attrs self))
                      # (''_metadata'', metadata self) # slots))"

text \<open>
  \<^verbatim>\<open>_simplify(recurse, unwrap, inplace)\<close> returns its result and the container
  \<^verbatim>\<open>self\<close> as the call leaves it: \<^verbatim>\<open>inplace\<close> assigns \<^verbatim>\<open>self._structure\<close> and
  returns \<^verbatim>\<open>self\<close>, every other path leaves \<^verbatim>\<open>self\<close> alone. The values of the
  slots are simplified by \<^verbatim>\<open>value._simplify(recurse=True)\<close>, that is with the
  defaults \<^verbatim>\<open>unwrap=True\<close> and \<^verbatim>\<open>inplace=False\<close>. The model has values, not
  references: that \<^verbatim>\<open>inplace\<close> without \<^verbatim>\<open>recurse\<close> shares one dictionary between
  two containers is not represented.
\<close>

function (sequential) simplify :: "structured \<Rightarrow> bool \<Rightarrow> bool \<Rightarrow> bool \<Rightarrow> (error + pyval) \<times> structured"
  and simplify_items :: "dict \<Rightarrow> error + dict"
where
  "simplify self recurse unwrap inplace =
     (if inplace \<and> unwrap then (Inl RuntimeError, self)
      else
        (case unwrap_loop unwrap (PStructured self) of
           PStructured structured \<Rightarrow>
             (case (if recurse then simplify_items (structure_of structured)
                    else Inr (structure_of structured)) of
                Inl e \<Rightarrow> (Inl e, self)
              | Inr slots \<Rightarrow>
                  if inplace then
                    (Inr (PStructured (set_structure self slots)), set_structure self slots)
                  else
                    (case construct_keeping self slots of
                       Inl e \<Rightarrow> (Inl e, self)
                     | Inr s \<Rightarrow> (Inr (PStructured s), self)))
         | v \<Rightarrow> (Inr v, self)))"
| "simplify_items [] = Inr []"
| "simplify_items ((k, v) # kvs) =
     (case (case v of PStructured s \<Rightarrow> fst (simplify s True True False) | _ \<Rightarrow> Inr v) of
        Inl e \<Rightarrow> Inl e
      | Inr v' \<Rightarrow>
          (case simplify_items kvs of
             Inl e \<Rightarrow> Inl e
           | Inr kvs' \<Rightarrow> Inr ((k, v') # kvs')))"
  by pat_completeness auto
termination
proof (relation "measure (\<lambda>x. case x of
         Inl (s, r, u, i) \<Rightarrow> 2 * size s
       | Inr kvs \<Rightarrow> Suc (2 * size_list (size_prod (\<lambda>_. 0) size) kvs))", goal_cases)
  case 1
  then show ?case by simp
next
  case (2 self recurse unwrap inplace x8)
  have "size (unwrap_loop unwrap (PStructured self)) \<le> size (PStructured self)"
    by (rule size_unwrap_loop)
  with 2 show ?case by (cases x8) auto
next
  case (3 k v kvs x8)
  then show ?case by auto
next
  case (4 k v kvs x2)
  then show ?case by auto
qed

subsection \<open>Update\<close>

text \<open>
  \<^verbatim>\<open>_update(root=_MISSING, **structure)\<close>: the dictionary display lists
  \<^verbatim>\<open>_mapped_attrs\<close>, \<^verbatim>\<open>_metadata\<close>, the slots of \<^verbatim>\<open>self\<close> and the prepared new
  items, later entries replacing earlier ones, and is unpacked into the call of the
  class. \<open>kwargs\<close> is the dictionary \<^verbatim>\<open>structure\<close> of the keywords other than
  \<^verbatim>\<open>root\<close>; a keyword \<^verbatim>\<open>self\<close> is a \<^verbatim>\<open>TypeError\<close> of the call of \<^verbatim>\<open>_update\<close>.
\<close>

definition update :: "structured \<Rightarrow> pyval option \<Rightarrow> dict \<Rightarrow> error + structured" where
  "update self root_arg kwargs =
     (if ''self'' \<in> set (keys kwargs) then Inl TypeError
      else
      let slots = (case root_arg of None \<Rightarrow> kwargs | Some r \<Rightarrow> dict_set ''root'' r kwargs)
      in construct
           (dict_merge
              ([(''_mapped_attrs'', PStrSet (mapped_attrs self)), (''_metadata'', metadata self)]
               @ structure_of self)
              (map (\<lambda>kv. (fst kv, prepare_item (fst kv) (snd kv))) slots)))"

subsection \<open>Attribute read\<close>

text \<open>
  \<^verbatim>\<open>__getattr__(attr)\<close>. The lambda of the source calls the built-in
  \<^verbatim>\<open>getattr(x, attr)\<close> on what \<^verbatim>\<open>_map\<close> hands it; what attributes the stored
  objects have is not part of this module, so the built-in is the parameter
  \<open>builtin_getattr\<close>. \<^verbatim>\<open>attr in self._structure\<close> followed by
  \<^verbatim>\<open>self._structure[attr]\<close> is one lookup.
\<close>

definition getattr :: "(pyval \<Rightarrow> string \<Rightarrow> error + pyval) \<Rightarrow> structured \<Rightarrow> string \<Rightarrow> error + pyval" where
  "getattr builtin_getattr self attr =
     (if startswith attr ''_'' then Inl AttributeError
      else
        (case map_of (structure_of self) attr of
           Some v \<Rightarrow> Inr v
         | None \<Rightarrow>
             if attr \<in> mapped_attrs self then
               (case map_structured (\<lambda>x. builtin_getattr x attr) True self of
                  Inl e \<Rightarrow> Inl e
                | Inr s \<Rightarrow> Inr (PStructured s))
             else Inl AttributeError))"

subsection \<open>Equality\<close>

text \<open>
  \<^verbatim>\<open>v == w\<close> on the universe, and \<^verbatim>\<open>__eq__\<close>. Two dictionaries are equal when
  they have the same number of keys and every key of the first is a key of the
  second with an equal value, whatever the order; tuples and lists compare item by
  item; a \<^verbatim>\<open>Structured\<close> equals another one with an equal \<^verbatim>\<open>_structure\<close> and
  nothing else.
\<close>

fun py_eq :: "pyval \<Rightarrow> pyval \<Rightarrow> bool"
  and py_eq_list :: "pyval list \<Rightarrow> pyval list \<Rightarrow> bool"
  and dict_sub :: "dict \<Rightarrow> dict \<Rightarrow> bool"
where
  "py_eq PNone w = (w = PNone)"
| "py_eq (PInt a) w = (w = PInt a)"
| "py_eq (PStr a) w = (w = PStr a)"
| "py_eq (PStrSet a) w = (w = PStrSet a)"
| "py_eq (PTuple xs) w = (case w of PTuple ys \<Rightarrow> py_eq_list xs ys | _ \<Rightarrow> False)"
| "py_eq (PList xs) w = (case w of PList ys \<Rightarrow> py_eq_list xs ys | _ \<Rightarrow> False)"
| "py_eq (PDict a) w = (case w of PDict b \<Rightarrow> length a = length b \<and> dict_sub a b | _ \<Rightarrow> False)"
| "py_eq (PStructured (Structured a ma md)) w =
     (case w of
        PStructured t \<Rightarrow> length a = length (structure_of t) \<and> dict_sub a (structure_of t)
      | _ \<Rightarrow> False)"
| "py_eq_list [] ys = (ys = [])"
| "py_eq_list (x # xs) ys = (case ys of [] \<Rightarrow> False | y # ys' \<Rightarrow> py_eq x y \<and> py_eq_list xs ys')"
| "dict_sub [] b = True"
| "dict_sub ((k, v) # kvs) b =
     ((case map_of b k of Some w \<Rightarrow> py_eq v w | None \<Rightarrow> False) \<and> dict_sub kvs b)"

definition dict_eq :: "dict \<Rightarrow> dict \<Rightarrow> bool" where
  "dict_eq a b = (length a = length b \<and> dict_sub a b)"

definition structured_eq :: "structured \<Rightarrow> pyval \<Rightarrow> bool" where
  "structured_eq self other =
     (case other of
        PStructured t \<Rightarrow> dict_eq (structure_of self) (structure_of t)
      | _ \<Rightarrow> False)"

section \<open>Notions of the specification\<close>

text \<open>
  One step of the walk the specification describes for simplification: the current
  value is a container that has a root and no other structure, \<open>unwrap\<close> holds or
  the root is itself a container, and the root replaces the current value.
\<close>

inductive root_step :: "bool \<Rightarrow> pyval \<Rightarrow> pyval \<Rightarrow> bool" for unwrap :: bool where
  step: "has_root s \<Longrightarrow> \<not> has_structure s \<Longrightarrow> root s = Some r \<Longrightarrow> unwrap \<or> is_structured r
    \<Longrightarrow> root_step unwrap (PStructured s) r"

text \<open>
  Well-formed containers. The keys of \<^verbatim>\<open>_structure\<close> are pairwise different, as
  in every dictionary, and none begins with an underscore: \<^verbatim>\<open>__init__\<close> and
  \<^verbatim>\<open>__setitem__\<close> refuse such a key and \<^verbatim>\<open>__setattr__\<close> does not store it in the
  structure. No key is \<^verbatim>\<open>"self"\<close>: the constructor cannot be given that keyword, so
  no container it builds has the key, but \<^verbatim>\<open>__setitem__\<close> and \<^verbatim>\<open>__setattr__\<close> store
  it, and \<^verbatim>\<open>_map\<close>, \<^verbatim>\<open>_update\<close> and \<^verbatim>\<open>_simplify\<close>, which pass the structure to
  the constructor, then raise \<^verbatim>\<open>TypeError\<close> (see the last section).
  The same holds for every container stored in a slot, at any depth. \<open>clean_keys\<close>
  is the condition on the keys of one dictionary.
\<close>

fun well_formed :: "structured \<Rightarrow> bool"
  and wf_val :: "pyval \<Rightarrow> bool"
  and wf_items :: "dict \<Rightarrow> bool"
where
  "well_formed (Structured d ma md) =
     (distinct (keys d) \<and> \<not> list_ex (\<lambda>k. startswith k ''_'') (keys d)
      \<and> ''self'' \<notin> set (keys d) \<and> wf_items d)"
| "wf_val (PStructured s) = well_formed s"
| "wf_val v = True"
| "wf_items [] = True"
| "wf_items ((k, v) # kvs) = (wf_val v \<and> wf_items kvs)"

definition clean_keys :: "dict \<Rightarrow> bool" where
  "clean_keys d =
     (distinct (keys d) \<and> \<not> list_ex (\<lambda>k. startswith k ''_'') (keys d)
      \<and> ''self'' \<notin> set (keys d))"

text \<open>
  A dictionary as the constructor stores it when it is called with the dictionary
  unpacked: the key \<^verbatim>\<open>"root"\<close> is bound to the parameter \<^verbatim>\<open>root\<close> and written after
  the other keys, which keep their order.
\<close>

definition root_last :: "dict \<Rightarrow> dict" where
  "root_last d =
     filter (\<lambda>kv. fst kv \<noteq> ''root'') d
     @ (case map_of d ''root'' of Some v \<Rightarrow> [(''root'', v)] | None \<Rightarrow> [])"

text \<open>What \<^verbatim>\<open>_simplify\<close> with \<^verbatim>\<open>recurse\<close> stores for the value of one slot.\<close>

definition simplify_slot :: "pyval \<Rightarrow> error + pyval" where
  "simplify_slot v = (case v of PStructured s \<Rightarrow> fst (simplify s True True False) | _ \<Rightarrow> Inr v)"

text \<open>
  A group is a tuple, a leaf is a value that is neither a group nor a container.
  \<open>leaves\<close> lists the objects \<^verbatim>\<open>_map\<close> with \<^verbatim>\<open>recurse=True\<close> calls the function on:
  the items of every tuple in a slot, every other value in a slot that is not a
  container, and the same inside the containers in the slots.
\<close>

fun is_group :: "pyval \<Rightarrow> bool" where
  "is_group (PTuple xs) = True"
| "is_group v = False"

definition is_leaf :: "pyval \<Rightarrow> bool" where
  "is_leaf v = (\<not> is_structured v \<and> \<not> is_group v)"

fun leaves :: "structured \<Rightarrow> pyval list"
  and leaves_val :: "pyval \<Rightarrow> pyval list"
  and leaves_items :: "dict \<Rightarrow> pyval list"
where
  "leaves (Structured d ma md) = leaves_items d"
| "leaves_val (PStructured s) = leaves s"
| "leaves_val (PTuple xs) = xs"
| "leaves_val v = [v]"
| "leaves_items [] = []"
| "leaves_items ((k, v) # kvs) = leaves_val v @ leaves_items kvs"

text \<open>
  The specification's "container with identical slot structure in which every leaf
  is replaced": \<open>leafwise R v w\<close> holds when \<open>w\<close> is \<open>v\<close> with every leaf \<open>x\<close>
  replaced by some \<open>y\<close> with \<open>R x y\<close>. A leaf is replaced directly, a group item by
  item, and a container by a container with the same keys, the keys other than
  \<^verbatim>\<open>"root"\<close> in the same order, and under every key the replaced value.
\<close>

inductive leafwise :: "(pyval \<Rightarrow> pyval \<Rightarrow> bool) \<Rightarrow> pyval \<Rightarrow> pyval \<Rightarrow> bool"
  for R :: "pyval \<Rightarrow> pyval \<Rightarrow> bool" where
  leaf: "is_leaf v \<Longrightarrow> R v w \<Longrightarrow> leafwise R v w"
| group: "list_all2 R xs ys \<Longrightarrow> leafwise R (PTuple xs) (PTuple ys)"
| nested: "set (keys (structure_of r)) = set (keys (structure_of s)) \<Longrightarrow>
    distinct (keys (structure_of r)) \<Longrightarrow>
    filter (\<lambda>k. k \<noteq> ''root'') (keys (structure_of r))
      = filter (\<lambda>k. k \<noteq> ''root'') (keys (structure_of s)) \<Longrightarrow>
    (\<forall>k v. map_of (structure_of s) k = Some v \<longrightarrow>
       (\<exists>w. map_of (structure_of r) k = Some w \<and> leafwise R v w)) \<Longrightarrow>
    leafwise R (PStructured s) (PStructured r)"

text \<open>
  The value \<^verbatim>\<open>_map\<close> with \<^verbatim>\<open>recurse=True\<close> computes on a well-formed container when
  the function does not raise: a device of the proofs, shown below to agree with
  \<open>map_structured\<close>.
\<close>

fun mapped_val :: "(pyval \<Rightarrow> pyval) \<Rightarrow> pyval \<Rightarrow> pyval"
  and mapped_items :: "(pyval \<Rightarrow> pyval) \<Rightarrow> dict \<Rightarrow> dict"
where
  "mapped_val f (PStructured (Structured d ma md)) =
     PStructured (Structured (root_last (mapped_items f d)) {} PNone)"
| "mapped_val f (PTuple xs) = PTuple (map f xs)"
| "mapped_val f v = f v"
| "mapped_items f [] = []"
| "mapped_items f ((k, v) # kvs) = (k, mapped_val f v) # mapped_items f kvs"

section \<open>Properties\<close>

declare getitem.simps [simp del]
declare simplify.simps(1) [simp del]
declare map_structured.simps [simp del]

subsection \<open>The root slot\<close>

lemma has_root_iff: "has_root s \<longleftrightarrow> root s \<noteq> None"
  by (simp add: has_root_def root_def keys_def map_of_eq_None_iff)

lemma no_structure_root: "\<not> has_structure s \<Longrightarrow> \<exists>r. root s = Some r"
proof -
  assume "\<not> has_structure s"
  then have "has_root s" by (simp add: has_structure_def has_root_def)
  then show ?thesis by (simp add: has_root_iff)
qed

lemma no_structure_filter:
  "\<not> has_structure s \<Longrightarrow> filter (\<lambda>kv. fst kv \<noteq> ''root'') (structure_of s) = []"
  by (auto simp: has_structure_def keys_def filter_empty_conv)

subsection \<open>In-place simplification cannot unwrap\<close>

text \<open>
  C9. \<^verbatim>\<open>_simplify\<close> with \<^verbatim>\<open>inplace=True\<close> and \<^verbatim>\<open>unwrap=True\<close> raises
  \<^verbatim>\<open>RuntimeError\<close> (the spec's InvalidOperation) for every container and every
  \<^verbatim>\<open>recurse\<close>, and the container after the call is the container before it: the
  check stands before the first assignment.
\<close>

theorem simplify_inplace_unwrap_fails:
  "simplify self recurse True True = (Inl RuntimeError, self)"
  by (simp add: simplify.simps(1))

theorem simplify_inplace_unwrap_fails_witness:
  "simplify (Structured [(''root'', PInt 5), (''b'', PInt 1)] {} PNone) False True True
     = (Inl RuntimeError, Structured [(''root'', PInt 5), (''b'', PInt 1)] {} PNone)"
  by (rule simplify_inplace_unwrap_fails)

subsection \<open>Iteration\<close>

text \<open>
  C2. Iterating a container whose only key is \<^verbatim>\<open>"root"\<close> yields the items of the root
  when the root is a sequence and the root itself when it is not; iterating a
  container with structure yields the root as one item when there is one, then the
  values of the other keys in insertion order.
\<close>

theorem iter_cases:
  "(\<not> has_structure s \<and> root s = Some r \<and> is_sequence r \<longrightarrow> iter s = seq_elems r)
   \<and> (\<not> has_structure s \<and> root s = Some r \<and> \<not> is_sequence r \<longrightarrow> iter s = [r])
   \<and> (has_structure s \<longrightarrow>
        iter s = (case root s of Some r \<Rightarrow> [r] | None \<Rightarrow> [])
                 @ map snd (filter (\<lambda>kv. fst kv \<noteq> ''root'') (structure_of s)))"
  by (auto simp: iter_def no_structure_filter split: option.splits)

theorem iter_cases_witness:
  "iter (Structured [(''root'', PTuple [PInt 1, PInt 2, PInt 3])] {} PNone) = [PInt 1, PInt 2, PInt 3]
   \<and> iter (Structured [(''root'', PInt 7)] {} PNone) = [PInt 7]
   \<and> iter (Structured [(''b'', PInt 3), (''root'', PTuple [PInt 1, PInt 2])] {} PNone)
       = [PTuple [PInt 1, PInt 2], PInt 3]"
proof -
  let ?a = "Structured [(''root'', PTuple [PInt 1, PInt 2, PInt 3])] {} PNone"
  let ?b = "Structured [(''root'', PInt 7)] {} PNone"
  let ?c = "Structured [(''b'', PInt 3), (''root'', PTuple [PInt 1, PInt 2])] {} PNone"
  have a: "\<not> has_structure ?a \<and> root ?a = Some (PTuple [PInt 1, PInt 2, PInt 3])
           \<and> is_sequence (PTuple [PInt 1, PInt 2, PInt 3])"
    by (simp add: has_structure_def root_def keys_def)
  have b: "\<not> has_structure ?b \<and> root ?b = Some (PInt 7) \<and> \<not> is_sequence (PInt 7)"
    by (simp add: has_structure_def root_def keys_def)
  have c: "has_structure ?c" by (simp add: has_structure_def keys_def)
  have c': "root ?c = Some (PTuple [PInt 1, PInt 2])" by (simp add: root_def)
  show ?thesis
    using iter_cases [of ?a "PTuple [PInt 1, PInt 2, PInt 3]"] a
      iter_cases [of ?b "PInt 7"] b iter_cases [of ?c] c c'
    by simp
qed

subsection \<open>Bracket read\<close>

text \<open>
  C4. \<^verbatim>\<open>__getitem__\<close> is a cascade of four cases, in this order. A container whose
  only key is \<^verbatim>\<open>"root"\<close> forwards the key to the subscript of its root, and the
  result of that subscript, an exception included, is the result. Otherwise the
  keys \<^verbatim>\<open>None\<close> and \<^verbatim>\<open>"root"\<close> read the root when there is one; otherwise a string
  key without a leading underscore that is a key of the structure reads its value;
  otherwise the read raises \<^verbatim>\<open>KeyError\<close> (the spec's KeyNotFound).
\<close>

theorem getitem_cascade:
  "(\<not> has_structure s \<longrightarrow> (\<exists>r. root s = Some r \<and> getitem s key = subscript r key))
   \<and> (has_structure s \<and> (key = PNone \<or> key = PStr ''root'') \<and> root s = Some r
        \<longrightarrow> getitem s key = Inr r)
   \<and> (has_structure s \<and> \<not> ((key = PNone \<or> key = PStr ''root'') \<and> has_root s)
        \<and> key = PStr k \<and> \<not> startswith k ''_'' \<and> map_of (structure_of s) k = Some v
        \<longrightarrow> getitem s key = Inr v)
   \<and> (has_structure s \<and> \<not> ((key = PNone \<or> key = PStr ''root'') \<and> has_root s)
        \<and> \<not> (\<exists>k. key = PStr k \<and> \<not> startswith k ''_'' \<and> k \<in> set (keys (structure_of s)))
        \<longrightarrow> getitem s key = Inl KeyError)"
proof (intro conjI impI)
  assume "\<not> has_structure s"
  then obtain r where r: "root s = Some r" using no_structure_root by blast
  then have "has_root s" by (simp add: has_root_iff)
  with r \<open>\<not> has_structure s\<close> show "\<exists>r. root s = Some r \<and> getitem s key = subscript r key"
    by (simp add: getitem.simps)
next
  assume "has_structure s \<and> (key = PNone \<or> key = PStr ''root'') \<and> root s = Some r"
  then show "getitem s key = Inr r"
    by (auto simp: getitem.simps has_root_iff)
next
  assume a: "has_structure s \<and> \<not> ((key = PNone \<or> key = PStr ''root'') \<and> has_root s)
        \<and> key = PStr k \<and> \<not> startswith k ''_'' \<and> map_of (structure_of s) k = Some v"
  then have "k \<in> set (keys (structure_of s))"
    by (auto simp: keys_def dest: map_of_SomeD intro: rev_image_eqI)
  with a show "getitem s key = Inr v"
    by (auto simp: getitem.simps)
next
  assume a: "has_structure s \<and> \<not> ((key = PNone \<or> key = PStr ''root'') \<and> has_root s)
        \<and> \<not> (\<exists>k. key = PStr k \<and> \<not> startswith k ''_'' \<and> k \<in> set (keys (structure_of s)))"
  then show "getitem s key = Inl KeyError"
    by (cases key) (auto simp: getitem.simps)
qed

theorem getitem_cascade_witness:
  "getitem (Structured [(''root'', PTuple [PInt 1, PInt 2])] {} PNone) (PInt (- 1)) = Inr (PInt 2)
   \<and> getitem (Structured [(''root'', PTuple [PInt 1, PInt 2])] {} PNone) (PInt 5) = Inl IndexError
   \<and> getitem (Structured [(''b'', PInt 3), (''root'', PTuple [PInt 1, PInt 2])] {} PNone) PNone
       = Inr (PTuple [PInt 1, PInt 2])
   \<and> getitem (Structured [(''b'', PInt 3), (''root'', PTuple [PInt 1, PInt 2])] {} PNone) (PStr ''b'')
       = Inr (PInt 3)
   \<and> getitem (Structured [(''b'', PInt 3), (''root'', PTuple [PInt 1, PInt 2])] {} PNone) (PStr ''zz'')
       = Inl KeyError"
proof -
  let ?a = "Structured [(''root'', PTuple [PInt 1, PInt 2])] {} PNone"
  let ?c = "Structured [(''b'', PInt 3), (''root'', PTuple [PInt 1, PInt 2])] {} PNone"
  have a: "\<not> has_structure ?a" "root ?a = Some (PTuple [PInt 1, PInt 2])"
    by (simp_all add: has_structure_def root_def keys_def)
  have c: "has_structure ?c" "root ?c = Some (PTuple [PInt 1, PInt 2])" "has_root ?c"
    by (simp_all add: has_structure_def has_root_def root_def keys_def)
  have 1: "getitem ?a (PInt (- 1)) = Inr (PInt 2)"
    using getitem_cascade [of ?a "PInt (- 1)"] a by (simp add: seq_index_def)
  have 2: "getitem ?a (PInt 5) = Inl IndexError"
    using getitem_cascade [of ?a "PInt 5"] a by (simp add: seq_index_def)
  have 3: "getitem ?c PNone = Inr (PTuple [PInt 1, PInt 2])"
    using getitem_cascade [of ?c PNone "PTuple [PInt 1, PInt 2]"] c by simp
  have 4: "getitem ?c (PStr ''b'') = Inr (PInt 3)"
    using getitem_cascade [of ?c "PStr ''b''" _ "''b''" "PInt 3"] c
    by (simp add: startswith_def)
  have 5: "getitem ?c (PStr ''zz'') = Inl KeyError"
    using getitem_cascade [of ?c "PStr ''zz''"] c by (simp add: keys_def)
  from 1 2 3 4 5 show ?thesis by simp
qed

subsection \<open>The walk down the roots\<close>

lemma unwrap_loop_steps: "rtranclp (root_step u) v (unwrap_loop u v)"
proof (induction u v rule: unwrap_loop.induct)
  case (1 unwrap s)
  show ?case
  proof (cases "has_root s \<and> \<not> has_structure s \<and> (\<exists>r. root s = Some r \<and> (unwrap \<or> is_structured r))")
    case True
    then obtain r where r: "root s = Some r" "unwrap \<or> is_structured r" by blast
    have "root_step unwrap (PStructured s) r" using True r by (auto intro: root_step.step)
    moreover have "rtranclp (root_step unwrap) r (unwrap_loop unwrap r)"
      using "1.IH" [of r] True r by blast
    moreover have "unwrap_loop unwrap (PStructured s) = unwrap_loop unwrap r"
      using True r by simp
    ultimately show ?thesis by (simp add: converse_rtranclp_into_rtranclp)
  next
    case False
    then have "unwrap_loop unwrap (PStructured s) = PStructured s"
      by (auto split: option.splits)
    then show ?thesis by simp
  qed
qed simp_all

lemma unwrap_loop_final: "\<not> root_step u (unwrap_loop u v) w"
proof (induction u v rule: unwrap_loop.induct)
  case (1 unwrap s)
  show ?case
  proof (cases "has_root s \<and> \<not> has_structure s \<and> (\<exists>r. root s = Some r \<and> (unwrap \<or> is_structured r))")
    case True
    then obtain r where r: "root s = Some r" "unwrap \<or> is_structured r" by blast
    have "unwrap_loop unwrap (PStructured s) = unwrap_loop unwrap r"
      using True r by simp
    moreover have "\<not> root_step unwrap (unwrap_loop unwrap r) w"
      using "1.IH" [of r] True r by blast
    ultimately show ?thesis by simp
  next
    case False
    then have "unwrap_loop unwrap (PStructured s) = PStructured s"
      by (auto split: option.splits)
    with False show ?thesis by (auto elim!: root_step.cases)
  qed
qed (auto elim: root_step.cases)

lemma init_plain:
  "\<not> list_ex (\<lambda>k. startswith k ''_'') (keys d) \<Longrightarrow>
   init r (PStrSet ma) md d =
     Inr (Structured (case r of None \<Rightarrow> d | Some v \<Rightarrow> dict_set ''root'' v d) ma md)"
  by (cases r) (auto simp: init_def prepare_item_def)

lemma simplify_root5_unwrap:
  "simplify (Structured [(''root'', PInt 5)] ma md) recurse True False
     = (Inr (PInt 5), Structured [(''root'', PInt 5)] ma md)"
  by (simp add: simplify.simps(1) has_root_def has_structure_def root_def keys_def)

lemma construct_keeping_root5:
  "construct_keeping (Structured d ma md) [(''root'', v)] = Inr (Structured [(''root'', v)] ma md)"
  by (simp add: construct_keeping_def construct_def keys_def init_plain)

lemma simplify_root5_keep:
  "fst (simplify (Structured [(''root'', PInt 5)] ma md) recurse False inplace)
     = Inr (PStructured (Structured [(''root'', PInt 5)] ma md))"
  by (simp add: simplify.simps(1) has_root_def has_structure_def root_def keys_def
      set_structure_def construct_keeping_root5)

subsection \<open>Round trip through the dictionary\<close>

text \<open>
  C8. For the container with the slots \<^verbatim>\<open>root: (1, 2)\<close> and \<^verbatim>\<open>c: (4, 5)\<close>,
  \<^verbatim>\<open>_to_dict\<close> returns the dictionary with these two items, and the container
  constructed from that dictionary equals the original under \<^verbatim>\<open>__eq__\<close>, in both
  directions. The constructor writes the root last: built by
  \<^verbatim>\<open>Structured((1, 2), c=(4, 5))\<close> the container lists \<^verbatim>\<open>c\<close> before \<^verbatim>\<open>root\<close>, its
  dictionary has the same items in that order and is equal, as a dictionary, to
  the one above, and constructing from it gives the same container again.
\<close>

theorem to_dict_roundtrip:
  "to_dict True (Structured [(''root'', PTuple [PInt 1, PInt 2]), (''c'', PTuple [PInt 4, PInt 5])] ma md)
     = [(''root'', PTuple [PInt 1, PInt 2]), (''c'', PTuple [PInt 4, PInt 5])]
   \<and> construct [(''root'', PTuple [PInt 1, PInt 2]), (''c'', PTuple [PInt 4, PInt 5])]
     = Inr (Structured [(''c'', PTuple [PInt 4, PInt 5]), (''root'', PTuple [PInt 1, PInt 2])] {} PNone)
   \<and> structured_eq (Structured [(''c'', PTuple [PInt 4, PInt 5]), (''root'', PTuple [PInt 1, PInt 2])] {} PNone)
        (PStructured (Structured [(''root'', PTuple [PInt 1, PInt 2]), (''c'', PTuple [PInt 4, PInt 5])] ma md))
   \<and> structured_eq (Structured [(''root'', PTuple [PInt 1, PInt 2]), (''c'', PTuple [PInt 4, PInt 5])] ma md)
        (PStructured (Structured [(''c'', PTuple [PInt 4, PInt 5]), (''root'', PTuple [PInt 1, PInt 2])] {} PNone))
   \<and> init (Some (PTuple [PInt 1, PInt 2])) PNone PNone [(''c'', PTuple [PInt 4, PInt 5])]
     = Inr (Structured [(''c'', PTuple [PInt 4, PInt 5]), (''root'', PTuple [PInt 1, PInt 2])] {} PNone)
   \<and> to_dict True (Structured [(''c'', PTuple [PInt 4, PInt 5]), (''root'', PTuple [PInt 1, PInt 2])] {} PNone)
     = [(''c'', PTuple [PInt 4, PInt 5]), (''root'', PTuple [PInt 1, PInt 2])]
   \<and> dict_eq [(''c'', PTuple [PInt 4, PInt 5]), (''root'', PTuple [PInt 1, PInt 2])]
        [(''root'', PTuple [PInt 1, PInt 2]), (''c'', PTuple [PInt 4, PInt 5])]
   \<and> construct [(''c'', PTuple [PInt 4, PInt 5]), (''root'', PTuple [PInt 1, PInt 2])]
     = Inr (Structured [(''c'', PTuple [PInt 4, PInt 5]), (''root'', PTuple [PInt 1, PInt 2])] {} PNone)"
  by (simp add: construct_def init_def keys_def startswith_def prepare_item_def structured_eq_def dict_eq_def)

theorem to_dict_roundtrip_witness:
  "structured_eq (Structured [(''root'', PTuple [PInt 1, PInt 2]), (''c'', PTuple [PInt 4, PInt 5])] {} PNone)
        (PStructured (Structured [(''c'', PTuple [PInt 4, PInt 5]), (''root'', PTuple [PInt 1, PInt 2])] {} PNone))"
  using to_dict_roundtrip [of "{}" PNone] by (rule conjunct2 [THEN conjunct2, THEN conjunct2, THEN conjunct1])

subsection \<open>Keys that are refused\<close>

lemma keys_simps:
  "keys [] = []" "keys ((k, v) # d) = k # keys d" "keys (a @ b) = keys a @ keys b"
  by (simp_all add: keys_def)

lemma keys_dict_set':
  "keys (dict_set k v d) = (if k \<in> set (keys d) then keys d else keys d @ [k])"
  by (induction d) (force simp: keys_def)+

lemma keys_dict_set: "set (keys (dict_set k v d)) = insert k (set (keys d))"
  by (auto simp: keys_dict_set')

lemma keys_dict_merge: "set (keys (dict_merge a b)) = set (keys a) \<union> set (keys b)"
proof -
  have "set (keys (fold (\<lambda>kv d. dict_set (fst kv) (snd kv) d) b a)) = set (keys a) \<union> set (keys b)"
  proof (induction b arbitrary: a)
    case Nil
    then show ?case by (simp add: keys_def)
  next
    case (Cons x b)
    have "set (keys (x # b)) = insert (fst x) (set (keys b))" by (simp add: keys_def)
    with Cons show ?case by (simp add: keys_dict_set)
  qed
  then show ?thesis by (simp add: dict_merge_def)
qed

lemma init_underscore:
  "list_ex (\<lambda>k. startswith k ''_'') (keys kwargs) \<Longrightarrow> init r ma md kwargs = Inl ValueError"
  by (simp add: init_def)

lemma construct_underscore:
  assumes "k \<in> set (keys d)" "startswith k ''_''" "k \<noteq> ''_mapped_attrs''" "k \<noteq> ''_metadata''"
    and "''self'' \<notin> set (keys d)"
  shows "construct d = Inl ValueError"
proof -
  have "k \<noteq> ''root''" using assms(2) by (auto simp: startswith_def)
  with assms have "k \<in> set (keys (filter (\<lambda>kv. fst kv \<notin> {''root'', ''_mapped_attrs'', ''_metadata''}) d))"
    by (auto simp: keys_def)
  with assms(2) have "list_ex (\<lambda>k. startswith k ''_'')
      (keys (filter (\<lambda>kv. fst kv \<notin> {''root'', ''_mapped_attrs'', ''_metadata''}) d))"
    by (auto simp: list_ex_iff)
  then show ?thesis using assms(5) by (simp add: construct_def init_underscore)
qed

lemma update_underscore:
  assumes "k \<in> set (keys kwargs)" "startswith k ''_''" "k \<noteq> ''_mapped_attrs''" "k \<noteq> ''_metadata''"
    and "''self'' \<notin> set (keys kwargs)" and "''self'' \<notin> set (keys (structure_of self))"
  shows "update self r kwargs = Inl ValueError"
proof -
  let ?slots = "case r of None \<Rightarrow> kwargs | Some v \<Rightarrow> dict_set ''root'' v kwargs"
  let ?new = "map (\<lambda>kv. (fst kv, prepare_item (fst kv) (snd kv))) ?slots"
  let ?merged = "dict_merge
              ([(''_mapped_attrs'', PStrSet (mapped_attrs self)), (''_metadata'', metadata self)]
               @ structure_of self) ?new"
  have ks: "set (keys ?new) = set (keys ?slots)" by (auto simp: keys_def)
  have sl: "set (keys ?slots) \<subseteq> insert ''root'' (set (keys kwargs))"
    by (cases r) (auto simp: keys_dict_set)
  have "k \<in> set (keys ?slots)" using assms(1) by (cases r) (auto simp: keys_dict_set)
  then have "k \<in> set (keys ?merged)"
    using ks by (simp add: keys_dict_merge)
  moreover have "''self'' \<notin> set (keys ?merged)"
    using assms(5,6) sl ks by (auto simp: keys_dict_merge keys_simps)
  ultimately have "construct ?merged = Inl ValueError"
    using assms(2-4) by (intro construct_underscore [of k]) simp_all
  then show ?thesis
    using assms(5) by (simp add: update_def Let_def)
qed

text \<open>
  C3, as amended. Construction raises \<^verbatim>\<open>ValueError\<close> when a key of the structure
  begins with an underscore, and so does \<^verbatim>\<open>_update\<close> for a new key that begins with
  an underscore and is neither \<^verbatim>\<open>_mapped_attrs\<close> nor \<^verbatim>\<open>_metadata\<close> (no key being
  \<^verbatim>\<open>self\<close>, which the call of the constructor refuses first). A bracket write
  raises \<^verbatim>\<open>KeyError\<close> when the key is not a string, is not an identifier (the empty
  string is none) or begins with an underscore, and stores the value under every
  other key. Construction and update do not ask whether a key is an identifier.
\<close>

theorem invalid_key_rejected:
  "(list_ex (\<lambda>k. startswith k ''_'') (keys kwargs) \<longrightarrow> init r ma md kwargs = Inl ValueError)
   \<and> ((\<forall>k. key \<noteq> PStr k)
        \<or> (\<exists>k. key = PStr k \<and> (\<not> isidentifier xid_start xid_continue k \<or> startswith k ''_''))
        \<longrightarrow> setitem xid_start xid_continue s key v = Inl KeyError)
   \<and> (isidentifier xid_start xid_continue k \<and> \<not> startswith k ''_''
        \<longrightarrow> setitem xid_start xid_continue s (PStr k) v
              = Inr (set_structure s (dict_set k v (structure_of s))))
   \<and> (list_ex (\<lambda>k. startswith k ''_'' \<and> k \<noteq> ''_mapped_attrs'' \<and> k \<noteq> ''_metadata'') (keys kwargs)
        \<and> ''self'' \<notin> set (keys kwargs) \<and> ''self'' \<notin> set (keys (structure_of s))
        \<longrightarrow> update s r kwargs = Inl ValueError)"
proof (intro conjI impI)
  assume "list_ex (\<lambda>k. startswith k ''_'') (keys kwargs)"
  then show "init r ma md kwargs = Inl ValueError" by (rule init_underscore)
next
  assume "(\<forall>k. key \<noteq> PStr k)
        \<or> (\<exists>k. key = PStr k \<and> (\<not> isidentifier xid_start xid_continue k \<or> startswith k ''_''))"
  then show "setitem xid_start xid_continue s key v = Inl KeyError"
    by (cases key) (auto simp: setitem_def)
next
  assume "isidentifier xid_start xid_continue k \<and> \<not> startswith k ''_''"
  then show "setitem xid_start xid_continue s (PStr k) v
              = Inr (set_structure s (dict_set k v (structure_of s)))"
    by (simp add: setitem_def prepare_item_def)
next
  assume a: "list_ex (\<lambda>k. startswith k ''_'' \<and> k \<noteq> ''_mapped_attrs'' \<and> k \<noteq> ''_metadata'') (keys kwargs)
    \<and> ''self'' \<notin> set (keys kwargs) \<and> ''self'' \<notin> set (keys (structure_of s))"
  then obtain k where "k \<in> set (keys kwargs)" "startswith k ''_''" "k \<noteq> ''_mapped_attrs''"
    "k \<noteq> ''_metadata''"
    by (auto simp: list_ex_iff)
  moreover from a have "''self'' \<notin> set (keys kwargs)" "''self'' \<notin> set (keys (structure_of s))"
    by simp_all
  ultimately show "update s r kwargs = Inl ValueError" by (rule update_underscore)
qed

theorem invalid_key_rejected_witness:
  "init None PNone PNone [(''a'', PInt 1), (''_b'', PInt 2)] = Inl ValueError
   \<and> (\<forall>xs xc. setitem xs xc (Structured [] {} PNone) (PStr ''a b'') (PInt 1) = Inl KeyError)
   \<and> (\<forall>xs xc. setitem xs xc (Structured [] {} PNone) (PStr ''_b'') (PInt 1) = Inl KeyError)
   \<and> (\<forall>xs xc. setitem xs xc (Structured [] {} PNone) (PStr []) (PInt 1) = Inl KeyError)
   \<and> (\<forall>xs xc. setitem xs xc (Structured [] {} PNone) (PInt 0) (PInt 1) = Inl KeyError)
   \<and> (\<forall>xs xc. setitem xs xc (Structured [(''a'', PInt 0)] {} PNone) (PStr ''b1'') (PInt 1)
       = Inr (Structured [(''a'', PInt 0), (''b1'', PInt 1)] {} PNone))
   \<and> setitem (\<lambda>c. True) (\<lambda>c. True) (Structured [] {} PNone) (PStr [CHR 0xE9]) (PInt 1)
       = Inr (Structured [([CHR 0xE9], PInt 1)] {} PNone)
   \<and> setitem (\<lambda>c. False) (\<lambda>c. False) (Structured [] {} PNone) (PStr [CHR 0xE9]) (PInt 1)
       = Inl KeyError
   \<and> update (Structured [(''a'', PInt 0)] {} PNone) None [(''_b'', PInt 2)] = Inl ValueError"
proof -
  have 1: "init None PNone PNone [(''a'', PInt 1), (''_b'', PInt 2)] = Inl ValueError"
    using invalid_key_rejected [where kwargs = "[(''a'', PInt 1), (''_b'', PInt 2)]" and r = None and ma = PNone and md = PNone]
    by (simp add: keys_def startswith_def)
  have 2: "setitem xs xc (Structured [] {} PNone) (PStr ''a b'') (PInt 1) = Inl KeyError" for xs xc
    using invalid_key_rejected [where key = "PStr ''a b''" and s = "Structured [] {} PNone"
        and v = "PInt 1" and xid_start = xs and xid_continue = xc]
    by (simp add: is_xid_continue_def ascii_letter_def ascii_digit_def)
  have 3: "setitem xs xc (Structured [] {} PNone) (PStr ''_b'') (PInt 1) = Inl KeyError" for xs xc
    using invalid_key_rejected [where key = "PStr ''_b''" and s = "Structured [] {} PNone"
        and v = "PInt 1" and xid_start = xs and xid_continue = xc]
    by (simp add: startswith_def)
  have 4: "setitem xs xc (Structured [] {} PNone) (PStr []) (PInt 1) = Inl KeyError" for xs xc
    using invalid_key_rejected [where key = "PStr []" and s = "Structured [] {} PNone"
        and v = "PInt 1" and xid_start = xs and xid_continue = xc]
    by simp
  have 5: "setitem xs xc (Structured [] {} PNone) (PInt 0) (PInt 1) = Inl KeyError" for xs xc
    using invalid_key_rejected [where key = "PInt 0" and s = "Structured [] {} PNone"
        and v = "PInt 1" and xid_start = xs and xid_continue = xc]
    by simp
  have 6: "setitem xs xc (Structured [(''a'', PInt 0)] {} PNone) (PStr ''b1'') (PInt 1)
       = Inr (Structured [(''a'', PInt 0), (''b1'', PInt 1)] {} PNone)" for xs xc
    using invalid_key_rejected [where s = "Structured [(''a'', PInt 0)] {} PNone" and v = "PInt 1"
        and k = "''b1''" and xid_start = xs and xid_continue = xc]
    by (simp add: startswith_def is_xid_start_def is_xid_continue_def ascii_letter_def
        ascii_digit_def set_structure_def)
  have 7: "setitem (\<lambda>c. True) (\<lambda>c. True) (Structured [] {} PNone) (PStr [CHR 0xE9]) (PInt 1)
       = Inr (Structured [([CHR 0xE9], PInt 1)] {} PNone)"
    using invalid_key_rejected [where s = "Structured [] {} PNone" and v = "PInt 1"
        and k = "[CHR 0xE9]" and xid_start = "\<lambda>c. True" and xid_continue = "\<lambda>c. True"]
    by (simp add: startswith_def is_xid_start_def set_structure_def)
  have 8: "setitem (\<lambda>c. False) (\<lambda>c. False) (Structured [] {} PNone) (PStr [CHR 0xE9]) (PInt 1)
       = Inl KeyError"
    using invalid_key_rejected [where key = "PStr [CHR 0xE9]" and s = "Structured [] {} PNone"
        and v = "PInt 1" and xid_start = "\<lambda>c. False" and xid_continue = "\<lambda>c. False"]
    by (simp add: is_xid_start_def)
  have 9: "update (Structured [(''a'', PInt 0)] {} PNone) None [(''_b'', PInt 2)] = Inl ValueError"
    using invalid_key_rejected [where kwargs = "[(''_b'', PInt 2)]" and s = "Structured [(''a'', PInt 0)] {} PNone" and r = None]
    by (simp add: keys_def startswith_def)
  from 1 2 3 4 5 6 7 8 9 show ?thesis by simp
qed

text \<open>
  The claim C3 as stated fails: a key that is not an identifier, the empty key
  included, is accepted by the constructor and by \<^verbatim>\<open>_update\<close>, and \<^verbatim>\<open>_update\<close>
  takes the keyword \<^verbatim>\<open>_metadata\<close>, which begins with an underscore, as the metadata
  of the new container.
\<close>

theorem construction_accepts_non_identifier:
  "(\<forall>xs xc. \<not> isidentifier xs xc ''a b'')
   \<and> init None PNone PNone [(''a b'', PInt 1)] = Inr (Structured [(''a b'', PInt 1)] {} PNone)
   \<and> (\<forall>xs xc. \<not> isidentifier xs xc [])
   \<and> init None PNone PNone [([], PInt 1)] = Inr (Structured [([], PInt 1)] {} PNone)
   \<and> update (Structured [] {} PNone) None [(''a b'', PInt 1)]
       = Inr (Structured [(''a b'', PInt 1)] {} PNone)
   \<and> startswith ''_metadata'' ''_''
   \<and> update (Structured [(''a'', PInt 0)] {} PNone) None [(''_metadata'', PInt 2)]
       = Inr (Structured [(''a'', PInt 0)] {} (PInt 2))"
  by (simp add: is_xid_continue_def ascii_letter_def ascii_digit_def init_def keys_def
      startswith_def prepare_item_def update_def construct_def dict_merge_def)

subsection \<open>What the constructor stores\<close>

lemma wf_iff: "well_formed s \<longleftrightarrow> clean_keys (structure_of s) \<and> wf_items (structure_of s)"
  by (cases s) (simp add: clean_keys_def)

lemma dict_set_absent: "k \<notin> set (keys d) \<Longrightarrow> dict_set k v d = d @ [(k, v)]"
  by (induction d) (auto simp: keys_def)

lemma underscore_not_root: "startswith k ''_'' \<Longrightarrow> k \<noteq> ''root''"
  by (auto simp: startswith_def)

lemma filter_specials:
  assumes "\<not> list_ex (\<lambda>k. startswith k ''_'') (keys d)"
  shows "filter (\<lambda>kv. fst kv \<notin> {''root'', ''_mapped_attrs'', ''_metadata''}) d
         = filter (\<lambda>kv. fst kv \<noteq> ''root'') d"
proof (rule filter_cong [OF refl])
  fix kv assume "kv \<in> set d"
  then have "\<not> startswith (fst kv) ''_''" using assms by (auto simp: list_ex_iff keys_def)
  then have "fst kv \<noteq> ''_mapped_attrs''" "fst kv \<noteq> ''_metadata''"
    by (auto simp: startswith_def)
  then show "(fst kv \<notin> {''root'', ''_mapped_attrs'', ''_metadata''}) = (fst kv \<noteq> ''root'')"
    by simp
qed

lemma no_underscore_filter:
  "\<not> list_ex (\<lambda>k. startswith k ''_'') (keys d) \<Longrightarrow>
   \<not> list_ex (\<lambda>k. startswith k ''_'') (keys (filter P d))"
  by (auto simp: list_ex_iff keys_def)

lemma init_root_last:
  assumes "\<not> list_ex (\<lambda>k. startswith k ''_'') (keys d)"
  shows "init (map_of d ''root'') (PStrSet ma) md (filter (\<lambda>kv. fst kv \<noteq> ''root'') d)
         = Inr (Structured (root_last d) ma md)"
proof -
  let ?f = "filter (\<lambda>kv. fst kv \<noteq> ''root'') d"
  have nf: "\<not> list_ex (\<lambda>k. startswith k ''_'') (keys ?f)"
    using assms by (rule no_underscore_filter)
  have "''root'' \<notin> set (keys ?f)" by (auto simp: keys_def)
  then have "dict_set ''root'' v ?f = ?f @ [(''root'', v)]" for v :: pyval
    by (rule dict_set_absent)
  then show ?thesis
    using nf by (cases "map_of d ''root''") (simp_all add: init_plain root_last_def)
qed

lemma map_of_specials:
  assumes "\<not> list_ex (\<lambda>k. startswith k ''_'') (keys d)"
  shows "map_of d ''_mapped_attrs'' = None" "map_of d ''_metadata'' = None"
        "''_mapped_attrs'' \<notin> set (keys d)" "''_metadata'' \<notin> set (keys d)"
proof -
  show a: "''_mapped_attrs'' \<notin> set (keys d)" and b: "''_metadata'' \<notin> set (keys d)"
    using assms by (auto simp: list_ex_iff startswith_def)
  from a show "map_of d ''_mapped_attrs'' = None" by (simp add: map_of_eq_None_iff keys_def)
  from b show "map_of d ''_metadata'' = None" by (simp add: map_of_eq_None_iff keys_def)
qed

lemma construct_keeping_clean:
  assumes "\<not> list_ex (\<lambda>k. startswith k ''_'') (keys d)" and "''self'' \<notin> set (keys d)"
  shows "construct_keeping self d = Inr (Structured (root_last d) (mapped_attrs self) (metadata self))"
proof -
  have "filter (\<lambda>kv. fst kv \<notin> {''root'', ''_mapped_attrs'', ''_metadata''}) d
        = filter (\<lambda>kv. fst kv \<noteq> ''root'') d"
    using assms(1) by (rule filter_specials)
  then show ?thesis
    using map_of_specials [OF assms(1)] init_root_last [OF assms(1)] assms(2)
    by (simp add: construct_keeping_def construct_def keys_def)
qed

lemma truthy_empty_set: "(if truthy (PStrSet ma) then py_set (PStrSet ma) else Inr {}) = Inr ma"
  by simp

lemma construct_clean:
  assumes "\<not> list_ex (\<lambda>k. startswith k ''_'') (keys d)" and "''self'' \<notin> set (keys d)"
  shows "construct d = Inr (Structured (root_last d) {} PNone)"
proof -
  have f: "filter (\<lambda>kv. fst kv \<notin> {''root'', ''_mapped_attrs'', ''_metadata''}) d
        = filter (\<lambda>kv. fst kv \<noteq> ''root'') d"
    using assms(1) by (rule filter_specials)
  have "init r PNone md d' = init r (PStrSet {}) md d'" for r md d'
    by (simp add: init_def)
  then show ?thesis
    using map_of_specials [OF assms(1)] init_root_last [OF assms(1), of "{}" PNone] f assms(2)
    by (simp add: construct_def)
qed

lemma map_of_filter_fst:
  "map_of (filter (\<lambda>kv. P (fst kv)) d) k = (if P k then map_of d k else None)"
  by (induction d) auto

lemma map_of_root_last: "map_of (root_last d) k = map_of d k"
proof (cases "k = ''root''")
  case True
  have "map_of (filter (\<lambda>kv. fst kv \<noteq> ''root'') d) ''root'' = None"
    using map_of_filter_fst [of "\<lambda>k. k \<noteq> ''root''" d "''root''"] by simp
  with True show ?thesis
    by (auto simp: root_last_def map_add_def split: option.splits)
next
  case False
  have "map_of (filter (\<lambda>kv. fst kv \<noteq> ''root'') d) k = map_of d k"
    using map_of_filter_fst [of "\<lambda>k. k \<noteq> ''root''" d k] False by simp
  with False show ?thesis
    by (auto simp: root_last_def map_add_def split: option.splits)
qed

lemma keys_root_last:
  "filter (\<lambda>k. k \<noteq> ''root'') (keys (root_last d)) = filter (\<lambda>k. k \<noteq> ''root'') (keys d)"
  by (auto simp: root_last_def keys_def filter_map comp_def split: option.splits)

lemma set_keys_root_last: "set (keys (root_last d)) = set (keys d)"
proof -
  have "set (keys d) = dom (map_of d)" by (simp add: dom_map_of_conv_image_fst keys_def)
  moreover have "set (keys (root_last d)) = dom (map_of (root_last d))"
    by (simp add: dom_map_of_conv_image_fst keys_def)
  moreover have "map_of (root_last d) = map_of d" by (rule ext) (rule map_of_root_last)
  ultimately show ?thesis by simp
qed

lemma distinct_root_last: "distinct (keys d) \<Longrightarrow> distinct (keys (root_last d))"
  by (auto simp: root_last_def keys_def distinct_map_filter split: option.splits)

subsection \<open>Simplification of the slots\<close>

declare unwrap_loop.simps [simp del]


lemma simplify_items_Cons:
  "simplify_items ((k, v) # kvs) =
     (case simplify_slot v of
        Inl e \<Rightarrow> Inl e
      | Inr v' \<Rightarrow> (case simplify_items kvs of Inl e \<Rightarrow> Inl e | Inr kvs' \<Rightarrow> Inr ((k, v') # kvs')))"
  by (simp add: simplify_slot_def)

declare simplify_items.simps(2) [simp del]

lemma simplify_items_Inr:
  "simplify_items d = Inr d' \<longleftrightarrow>
   list_all2 (\<lambda>a b. fst b = fst a \<and> simplify_slot (snd a) = Inr (snd b)) d d'"
proof (induction d arbitrary: d')
  case Nil
  then show ?case by auto
next
  case (Cons a d)
  obtain k v where a: "a = (k, v)" by (cases a)
  show ?case
    unfolding a simplify_items_Cons
    by (cases d') (auto simp: Cons.IH [symmetric] split: sum.splits)
qed

lemma list_all2_keys:
  "list_all2 (\<lambda>a b. fst b = fst a \<and> R (snd a) (snd b)) d d' \<Longrightarrow> keys d' = keys d"
  by (induction d d' rule: list_all2_induct) (auto simp: keys_def)

lemma list_all2_lookup:
  "list_all2 (\<lambda>a b. fst b = fst a \<and> R (snd a) (snd b)) d d' \<Longrightarrow> map_of d k = Some v
   \<Longrightarrow> \<exists>v'. map_of d' k = Some v' \<and> R v v'"
  by (induction d d' rule: list_all2_induct) (auto split: if_splits)

lemma wf_items_lookup: "wf_items d \<Longrightarrow> map_of d k = Some v \<Longrightarrow> wf_val v"
  by (induction d) (auto split: if_splits)

lemma wf_root: "well_formed s \<Longrightarrow> root s = Some r \<Longrightarrow> wf_val r"
  by (cases s) (auto simp: root_def dest: wf_items_lookup)

lemma wf_unwrap_loop: "wf_val v \<Longrightarrow> wf_val (unwrap_loop u v)"
proof (induction u v rule: unwrap_loop.induct)
  case (1 unwrap s)
  show ?case
  proof (cases "has_root s \<and> \<not> has_structure s \<and> (\<exists>r. root s = Some r \<and> (unwrap \<or> is_structured r))")
    case True
    then obtain r where r: "root s = Some r" "unwrap \<or> is_structured r" by blast
    have "wf_val r" using "1.prems" r(1) by (auto dest: wf_root)
    then have "wf_val (unwrap_loop unwrap r)" using "1.IH" [of r] True r by blast
    with True r show ?thesis by (simp add: unwrap_loop.simps)
  next
    case False
    then have "unwrap_loop unwrap (PStructured s) = PStructured s"
      by (auto simp: unwrap_loop.simps split: option.splits)
    with "1.prems" show ?thesis by simp
  qed
qed (simp_all add: unwrap_loop.simps)

lemma simplify_succeeds:
  "(well_formed self \<longrightarrow> \<not> (inplace \<and> unwrap) \<longrightarrow> (\<exists>res. fst (simplify self recurse unwrap inplace) = Inr res))"
  "(wf_items d \<longrightarrow> (\<exists>d'. simplify_items d = Inr d'))"
proof (induction self recurse unwrap inplace and d rule: simplify_simplify_items.induct)
  case (1 self recurse unwrap inplace)
  show ?case
  proof (intro impI)
    assume wfs: "well_formed self" and ok: "\<not> (inplace \<and> unwrap)"
    have wfu: "wf_val (unwrap_loop unwrap (PStructured self))"
      using wfs by (intro wf_unwrap_loop) simp
    show "\<exists>res. fst (simplify self recurse unwrap inplace) = Inr res"
    proof (cases "unwrap_loop unwrap (PStructured self)")
      case (PStructured x)
      with wfu have wfx: "well_formed x" by simp
      then have cx: "clean_keys (structure_of x)" and ix: "wf_items (structure_of x)"
        by (simp_all add: wf_iff)
      obtain slots where slots:
        "(if recurse then simplify_items (structure_of x) else Inr (structure_of x)) = Inr slots"
        and ks: "keys slots = keys (structure_of x)"
      proof (cases recurse)
        case True
        then obtain d' where d': "simplify_items (structure_of x) = Inr d'"
          using "1.IH" [OF ok PStructured] ix by blast
        then have "keys d' = keys (structure_of x)"
          by (auto simp: simplify_items_Inr dest: list_all2_keys)
        with d' True that show ?thesis by simp
      next
        case False
        with that show ?thesis by simp
      qed
      have "\<not> list_ex (\<lambda>k. startswith k ''_'') (keys slots)" "''self'' \<notin> set (keys slots)"
        using cx ks by (simp_all add: clean_keys_def)
      then have "construct_keeping self slots
                 = Inr (Structured (root_last slots) (mapped_attrs self) (metadata self))"
        by (rule construct_keeping_clean)
      with PStructured slots ok show ?thesis
        by (cases inplace) (simp_all add: simplify.simps(1))
    qed (use ok in \<open>simp_all add: simplify.simps(1)\<close>)
  qed
next
  case 2
  then show ?case by simp
next
  case (3 k v kvs)
  show ?case
  proof (intro impI)
    assume wfs: "wf_items ((k, v) # kvs)"
    then have wv: "wf_val v" and wk: "wf_items kvs" by simp_all
    have "\<exists>v'. simplify_slot v = Inr v'"
    proof (cases v)
      case (PStructured s)
      then show ?thesis using "3.IH"(1) [OF PStructured] wv
        by (simp add: simplify_slot_def)
    qed (simp_all add: simplify_slot_def)
    then obtain v' where v': "simplify_slot v = Inr v'" by blast
    have "\<exists>d'. simplify_items kvs = Inr d'"
    proof (cases v)
      case (PStructured s)
      with v' have "fst (simplify s True True False) = Inr v'" by (simp add: simplify_slot_def)
      then show ?thesis using "3.IH"(2) [of v'] PStructured wk
        by simp
    next
      case PNone
      then show ?thesis using "3.IH"(2) [of v'] wk v' by (simp add: simplify_slot_def)
    next
      case (PInt x2)
      then show ?thesis using "3.IH"(2) [of v'] wk v' by (simp add: simplify_slot_def)
    next
      case (PStr x3)
      then show ?thesis using "3.IH"(2) [of v'] wk v' by (simp add: simplify_slot_def)
    next
      case (PTuple x4)
      then show ?thesis using "3.IH"(2) [of v'] wk v' by (simp add: simplify_slot_def)
    next
      case (PList x5)
      then show ?thesis using "3.IH"(2) [of v'] wk v' by (simp add: simplify_slot_def)
    next
      case (PDict x6)
      then show ?thesis using "3.IH"(2) [of v'] wk v' by (simp add: simplify_slot_def)
    next
      case (PStrSet x7)
      then show ?thesis using "3.IH"(2) [of v'] wk v' by (simp add: simplify_slot_def)
    qed
    then obtain d' where "simplify_items kvs = Inr d'" by blast
    with v' show "\<exists>d'. simplify_items ((k, v) # kvs) = Inr d'"
      by (simp add: simplify_items_Cons)
  qed
qed


lemma unwrap_loop_structure: "has_structure s \<Longrightarrow> unwrap_loop u (PStructured s) = PStructured s"
  by (simp add: unwrap_loop.simps)

lemma unwrap_loop_plain: "\<not> is_structured v \<Longrightarrow> unwrap_loop u v = v"
  by (cases v) (simp_all add: unwrap_loop.simps)

lemma simplify_lone_root:
  assumes "\<not> has_structure n" "root n = Some v" "\<not> is_structured v"
  shows "simplify n recurse True False = (Inr v, n)"
proof -
  have "has_root n" using assms(2) by (simp add: has_root_iff)
  then have "unwrap_loop True (PStructured n) = v"
    using assms by (simp add: unwrap_loop.simps unwrap_loop_plain)
  with assms(3) show ?thesis
    by (cases v) (simp_all add: simplify.simps(1))
qed

text \<open>
  With \<^verbatim>\<open>recurse=True\<close> the values of the slots are simplified with
  \<^verbatim>\<open>unwrap=True\<close>, whatever \<^verbatim>\<open>unwrap\<close> the call was given. Let a well-formed
  container with structure hold under the key \<open>k\<close> a container whose only key is
  \<^verbatim>\<open>"root"\<close>, with a root \<open>v\<close> that is not a container. Then
  \<^verbatim>\<open>_simplify(recurse=True, unwrap=False)\<close> returns a container, in place or new, and
  its slot \<open>k\<close> holds \<open>v\<close> itself. Without well-formedness the call can raise: see
  the last section.
\<close>

theorem simplify_recurse_unwraps_nested:
  assumes "well_formed s" and "has_structure s"
    and "map_of (structure_of s) k = Some (PStructured n)"
    and "\<not> has_structure n" and "root n = Some v" and "\<not> is_structured v"
  shows "\<exists>r. fst (simplify s True False inplace) = Inr (PStructured r)
             \<and> map_of (structure_of r) k = Some v"
proof -
  have loop: "unwrap_loop False (PStructured s) = PStructured s"
    using assms(2) by (rule unwrap_loop_structure)
  have slot: "simplify_slot (PStructured n) = Inr v"
    using simplify_lone_root [OF assms(4-6)] by (simp add: simplify_slot_def)
  have clean: "clean_keys (structure_of s)" and items: "wf_items (structure_of s)"
    using assms(1) by (simp_all add: wf_iff)
  obtain d' where d': "simplify_items (structure_of s) = Inr d'"
    using simplify_succeeds(2) items by blast
  then have rel: "list_all2 (\<lambda>a b. fst b = fst a \<and> simplify_slot (snd a) = Inr (snd b))
                    (structure_of s) d'"
    by (simp add: simplify_items_Inr)
  then have ks: "keys d' = keys (structure_of s)" by (rule list_all2_keys)
  obtain v' where "map_of d' k = Some v'" "simplify_slot (PStructured n) = Inr v'"
    using list_all2_lookup [OF rel assms(3)] by blast
  with slot have look: "map_of d' k = Some v" by simp
  show ?thesis
  proof (cases inplace)
    case True
    then have "fst (simplify s True False inplace) = Inr (PStructured (set_structure s d'))"
      using loop d' by (simp add: simplify.simps(1))
    moreover have "map_of (structure_of (set_structure s d')) k = Some v"
      using look by (simp add: set_structure_def)
    ultimately show ?thesis by blast
  next
    case False
    have "\<not> list_ex (\<lambda>k. startswith k ''_'') (keys d')" "''self'' \<notin> set (keys d')"
      using clean ks by (simp_all add: clean_keys_def)
    then have "construct_keeping s d'
               = Inr (Structured (root_last d') (mapped_attrs s) (metadata s))"
      by (rule construct_keeping_clean)
    with False loop d'
    have "fst (simplify s True False inplace)
          = Inr (PStructured (Structured (root_last d') (mapped_attrs s) (metadata s)))"
      by (simp add: simplify.simps(1))
    moreover have "map_of (structure_of (Structured (root_last d') (mapped_attrs s) (metadata s))) k
                   = Some v"
      using look by (simp add: map_of_root_last)
    ultimately show ?thesis by blast
  qed
qed

theorem simplify_recurse_unwraps_nested_witness:
  "(\<exists>r. fst (simplify
          (Structured [(''a'', PStructured (Structured [(''root'', PInt 5)] {} PNone)),
                       (''root'', PInt 1)] {} PNone) True False False)
        = Inr (PStructured r)
       \<and> map_of (structure_of r) ''a'' = Some (PInt 5))
   \<and> fst (simplify
          (Structured [(''a'', PStructured (Structured [(''root'', PInt 5)] {} PNone)),
                       (''root'', PInt 1)] {} PNone) True False False)
       = Inr (PStructured (Structured [(''a'', PInt 5), (''root'', PInt 1)] {} PNone))"
proof -
  let ?n = "Structured [(''root'', PInt 5)] {} PNone"
  let ?s = "Structured [(''a'', PStructured ?n), (''root'', PInt 1)] {} PNone"
  have 1: "well_formed ?s" by (simp add: keys_def startswith_def)
  have 2: "has_structure ?s" by (simp add: has_structure_def keys_def)
  have 3: "map_of (structure_of ?s) ''a'' = Some (PStructured ?n)" by simp
  have 4: "\<not> has_structure ?n" by (simp add: has_structure_def keys_def)
  have 5: "root ?n = Some (PInt 5)" by (simp add: root_def)
  have 6: "\<not> is_structured (PInt 5)" by simp
  have "fst (simplify ?s True False False)
        = Inr (PStructured (Structured [(''a'', PInt 5), (''root'', PInt 1)] {} PNone))"
    by (simp add: simplify.simps(1) unwrap_loop.simps has_root_def has_structure_def root_def
        keys_def simplify_items_Cons simplify_slot_def construct_keeping_def construct_def
        init_def startswith_def prepare_item_def)
  with simplify_recurse_unwraps_nested [OF 1 2 3 4 5 6, of False] show ?thesis
    by (intro conjI)
qed

subsection \<open>The result of simplification\<close>

text \<open>
  C1. The loop of \<^verbatim>\<open>_simplify\<close> walks from the container along \<open>root_step\<close> to
  the value it ends on, and no step leaves that value: it replaces the current
  value by its root as long as the current value is a container with a root,
  without other structure, and \<^verbatim>\<open>unwrap\<close> holds or the root is a container. The
  result of \<^verbatim>\<open>_simplify\<close> is made from the end of the walk. When the walk ends on
  a value that is not a container, that value is the result. When it ends on a
  container \<open>t\<close>, the result has the slots of \<open>t\<close>, simplified when \<^verbatim>\<open>recurse\<close>
  holds, and the mapped attributes and metadata of \<^verbatim>\<open>self\<close>: they are assigned to
  \<^verbatim>\<open>self\<close> when \<^verbatim>\<open>inplace\<close> holds and passed to the constructor otherwise, which
  stores them with the root last when the keys are clean. So the container whose
  only content is \<^verbatim>\<open>root=5\<close> simplifies to \<^verbatim>\<open>5\<close> with \<^verbatim>\<open>unwrap=True\<close>, and with
  \<^verbatim>\<open>unwrap=False\<close> to a container whose root is \<^verbatim>\<open>5\<close>.
\<close>

theorem simplify_unwraps_root_chain:
  "rtranclp (root_step unwrap) (PStructured self) (unwrap_loop unwrap (PStructured self))
   \<and> (\<forall>w. \<not> root_step unwrap (unwrap_loop unwrap (PStructured self)) w)
   \<and> (\<not> (inplace \<and> unwrap) \<and> \<not> is_structured (unwrap_loop unwrap (PStructured self))
        \<longrightarrow> simplify self recurse unwrap inplace
              = (Inr (unwrap_loop unwrap (PStructured self)), self))
   \<and> (\<not> (inplace \<and> unwrap) \<and> unwrap_loop unwrap (PStructured self) = PStructured t
        \<longrightarrow> simplify self recurse unwrap inplace
              = (case (if recurse then simplify_items (structure_of t) else Inr (structure_of t)) of
                   Inl e \<Rightarrow> (Inl e, self)
                 | Inr slots \<Rightarrow>
                     if inplace then
                       (Inr (PStructured (set_structure self slots)), set_structure self slots)
                     else
                       (case construct_keeping self slots of
                          Inl e \<Rightarrow> (Inl e, self)
                        | Inr s \<Rightarrow> (Inr (PStructured s), self))))
   \<and> (inplace \<and> \<not> unwrap \<and> \<not> recurse \<and> unwrap_loop unwrap (PStructured self) = PStructured t
        \<longrightarrow> simplify self recurse unwrap inplace
              = (Inr (PStructured (set_structure self (structure_of t))),
                 set_structure self (structure_of t)))
   \<and> (\<not> inplace \<and> \<not> recurse \<and> unwrap_loop unwrap (PStructured self) = PStructured t
        \<and> clean_keys (structure_of t)
        \<longrightarrow> simplify self recurse unwrap inplace
              = (Inr (PStructured (Structured (root_last (structure_of t))
                                     (mapped_attrs self) (metadata self))), self))
   \<and> (\<not> inplace \<and> recurse \<and> unwrap_loop unwrap (PStructured self) = PStructured t
        \<and> well_formed self
        \<longrightarrow> (\<exists>slots. simplify_items (structure_of t) = Inr slots
               \<and> keys slots = keys (structure_of t)
               \<and> simplify self recurse unwrap inplace
                   = (Inr (PStructured (Structured (root_last slots)
                                          (mapped_attrs self) (metadata self))), self)))
   \<and> simplify (Structured [(''root'', PInt 5)] ma md) recurse True False
       = (Inr (PInt 5), Structured [(''root'', PInt 5)] ma md)
   \<and> fst (simplify (Structured [(''root'', PInt 5)] ma md) recurse False inplace)
       = Inr (PStructured (Structured [(''root'', PInt 5)] ma md))
   \<and> root (Structured [(''root'', PInt 5)] ma md) = Some (PInt 5)"
proof (intro conjI allI impI)
  show "rtranclp (root_step unwrap) (PStructured self) (unwrap_loop unwrap (PStructured self))"
    by (rule unwrap_loop_steps)
  show "\<not> root_step unwrap (unwrap_loop unwrap (PStructured self)) w" for w
    by (rule unwrap_loop_final)
  show "simplify self recurse unwrap inplace = (Inr (unwrap_loop unwrap (PStructured self)), self)"
    if "\<not> (inplace \<and> unwrap) \<and> \<not> is_structured (unwrap_loop unwrap (PStructured self))"
  proof (cases "unwrap_loop unwrap (PStructured self)")
    case (PStructured x)
    with that show ?thesis by simp
  qed (use that in \<open>simp_all add: simplify.simps(1)\<close>)
  show "simplify self recurse unwrap inplace
        = (case (if recurse then simplify_items (structure_of t) else Inr (structure_of t)) of
             Inl e \<Rightarrow> (Inl e, self)
           | Inr slots \<Rightarrow>
               if inplace then
                 (Inr (PStructured (set_structure self slots)), set_structure self slots)
               else
                 (case construct_keeping self slots of
                    Inl e \<Rightarrow> (Inl e, self)
                  | Inr s \<Rightarrow> (Inr (PStructured s), self)))"
    if "\<not> (inplace \<and> unwrap) \<and> unwrap_loop unwrap (PStructured self) = PStructured t"
    using that by (auto simp: simplify.simps(1))
  show "simplify self recurse unwrap inplace
        = (Inr (PStructured (set_structure self (structure_of t))),
           set_structure self (structure_of t))"
    if "inplace \<and> \<not> unwrap \<and> \<not> recurse \<and> unwrap_loop unwrap (PStructured self) = PStructured t"
    using that by (auto simp: simplify.simps(1))
  show "simplify self recurse unwrap inplace
        = (Inr (PStructured (Structured (root_last (structure_of t))
                               (mapped_attrs self) (metadata self))), self)"
    if a: "\<not> inplace \<and> \<not> recurse \<and> unwrap_loop unwrap (PStructured self) = PStructured t
        \<and> clean_keys (structure_of t)"
  proof -
    from a have "\<not> list_ex (\<lambda>k. startswith k ''_'') (keys (structure_of t))"
      "''self'' \<notin> set (keys (structure_of t))"
      by (simp_all add: clean_keys_def)
    then have "construct_keeping self (structure_of t)
               = Inr (Structured (root_last (structure_of t)) (mapped_attrs self) (metadata self))"
      by (rule construct_keeping_clean)
    with a show ?thesis by (auto simp: simplify.simps(1))
  qed
  show "\<exists>slots. simplify_items (structure_of t) = Inr slots
               \<and> keys slots = keys (structure_of t)
               \<and> simplify self recurse unwrap inplace
                   = (Inr (PStructured (Structured (root_last slots)
                                          (mapped_attrs self) (metadata self))), self)"
    if a: "\<not> inplace \<and> recurse \<and> unwrap_loop unwrap (PStructured self) = PStructured t
        \<and> well_formed self"
  proof -
    from a have "wf_val (unwrap_loop unwrap (PStructured self))"
      by (intro wf_unwrap_loop) simp
    with a have wt: "well_formed t" by simp
    then have ct: "clean_keys (structure_of t)" and it: "wf_items (structure_of t)"
      by (simp_all add: wf_iff)
    obtain slots where slots: "simplify_items (structure_of t) = Inr slots"
      using simplify_succeeds(2) it by blast
    then have ks: "keys slots = keys (structure_of t)"
      by (auto simp: simplify_items_Inr dest: list_all2_keys)
    have "\<not> list_ex (\<lambda>k. startswith k ''_'') (keys slots)" "''self'' \<notin> set (keys slots)"
      using ct ks by (simp_all add: clean_keys_def)
    then have "construct_keeping self slots
               = Inr (Structured (root_last slots) (mapped_attrs self) (metadata self))"
      by (rule construct_keeping_clean)
    with a slots have "simplify self recurse unwrap inplace
        = (Inr (PStructured (Structured (root_last slots) (mapped_attrs self) (metadata self))), self)"
      by (auto simp: simplify.simps(1))
    with slots ks show ?thesis by blast
  qed
  show "simplify (Structured [(''root'', PInt 5)] ma md) recurse True False
       = (Inr (PInt 5), Structured [(''root'', PInt 5)] ma md)"
    by (rule simplify_root5_unwrap)
  show "fst (simplify (Structured [(''root'', PInt 5)] ma md) recurse False inplace)
       = Inr (PStructured (Structured [(''root'', PInt 5)] ma md))"
    by (rule simplify_root5_keep)
  show "root (Structured [(''root'', PInt 5)] ma md) = Some (PInt 5)"
    by (simp add: root_def)
qed

theorem simplify_unwraps_root_chain_witness:
  "rtranclp (root_step True)
     (PStructured (Structured [(''root'', PStructured (Structured [(''root'', PInt 5)] {} PNone))] {} PNone))
     (PInt 5)
   \<and> simplify (Structured [(''root'', PStructured (Structured [(''root'', PInt 5)] {} PNone))] {} PNone)
        True True False
      = (Inr (PInt 5),
         Structured [(''root'', PStructured (Structured [(''root'', PInt 5)] {} PNone))] {} PNone)
   \<and> simplify
        (Structured [(''root'', PStructured (Structured [(''a'', PInt 1), (''b'', PInt 2)] {} PNone))]
           {''m''} (PInt 7)) False False False
      = (Inr (PStructured (Structured [(''a'', PInt 1), (''b'', PInt 2)] {''m''} (PInt 7))),
         Structured [(''root'', PStructured (Structured [(''a'', PInt 1), (''b'', PInt 2)] {} PNone))]
           {''m''} (PInt 7))
   \<and> simplify
        (Structured [(''root'', PStructured (Structured [(''a'', PInt 1), (''b'', PInt 2)] {} PNone))]
           {''m''} (PInt 7)) False False True
      = (Inr (PStructured (Structured [(''a'', PInt 1), (''b'', PInt 2)] {''m''} (PInt 7))),
         Structured [(''a'', PInt 1), (''b'', PInt 2)] {''m''} (PInt 7))
   \<and> simplify
        (Structured [(''root'', PStructured (Structured
            [(''a'', PStructured (Structured [(''root'', PInt 1)] {} PNone)), (''b'', PInt 2)] {} PNone))]
           {''m''} (PInt 7)) True False False
      = (Inr (PStructured (Structured [(''a'', PInt 1), (''b'', PInt 2)] {''m''} (PInt 7))),
         Structured [(''root'', PStructured (Structured
            [(''a'', PStructured (Structured [(''root'', PInt 1)] {} PNone)), (''b'', PInt 2)] {} PNone))]
           {''m''} (PInt 7))"
proof -
  let ?s = "Structured [(''root'', PStructured (Structured [(''root'', PInt 5)] {} PNone))] {} PNone"
  let ?t = "Structured [(''a'', PInt 1), (''b'', PInt 2)] {} PNone"
  let ?w = "Structured [(''root'', PStructured ?t)] {''m''} (PInt 7)"
  let ?t' = "Structured [(''a'', PStructured (Structured [(''root'', PInt 1)] {} PNone)),
               (''b'', PInt 2)] {} PNone"
  let ?w' = "Structured [(''root'', PStructured ?t')] {''m''} (PInt 7)"
  have u: "unwrap_loop True (PStructured ?s) = PInt 5"
    by (simp add: unwrap_loop.simps has_root_def has_structure_def root_def keys_def)
  have v: "unwrap_loop False (PStructured ?w) = PStructured ?t"
    by (simp add: unwrap_loop.simps has_root_def has_structure_def root_def keys_def)
  have v': "unwrap_loop False (PStructured ?w') = PStructured ?t'"
    by (simp add: unwrap_loop.simps has_root_def has_structure_def root_def keys_def)
  have c: "clean_keys (structure_of ?t)" by (simp add: clean_keys_def keys_def startswith_def)
  have wf: "well_formed ?w'" by (simp add: keys_def startswith_def)
  have 1: "rtranclp (root_step True) (PStructured ?s) (PInt 5)"
    "simplify ?s True True False = (Inr (PInt 5), ?s)"
    using simplify_unwraps_root_chain [where unwrap = True and self = ?s and inplace = False
        and recurse = True and ma = "{}" and md = PNone] u by simp_all
  have 2: "simplify ?w False False False
           = (Inr (PStructured (Structured [(''a'', PInt 1), (''b'', PInt 2)] {''m''} (PInt 7))), ?w)"
    using simplify_unwraps_root_chain [where unwrap = False and self = ?w and inplace = False
        and recurse = False and t = ?t and ma = "{}" and md = PNone,
        THEN conjunct2, THEN conjunct2, THEN conjunct2, THEN conjunct2, THEN conjunct2, THEN conjunct1] v c
    by (simp add: root_last_def)
  have 3: "simplify ?w False False True
           = (Inr (PStructured (Structured [(''a'', PInt 1), (''b'', PInt 2)] {''m''} (PInt 7))),
              Structured [(''a'', PInt 1), (''b'', PInt 2)] {''m''} (PInt 7))"
    using simplify_unwraps_root_chain [where unwrap = False and self = ?w and inplace = True
        and recurse = False and t = ?t and ma = "{}" and md = PNone,
        THEN conjunct2, THEN conjunct2, THEN conjunct2, THEN conjunct2, THEN conjunct1] v
    by (simp add: set_structure_def)
  have s': "simplify_items (structure_of ?t') = Inr [(''a'', PInt 1), (''b'', PInt 2)]"
    by (simp add: simplify_items_Cons simplify_slot_def simplify.simps(1) unwrap_loop.simps
        has_root_def has_structure_def root_def keys_def)
  have 4: "simplify ?w' True False False
           = (Inr (PStructured (Structured [(''a'', PInt 1), (''b'', PInt 2)] {''m''} (PInt 7))), ?w')"
    using simplify_unwraps_root_chain [where unwrap = False and self = ?w' and inplace = False
        and recurse = True and t = ?t' and ma = "{}" and md = PNone,
        THEN conjunct2, THEN conjunct2, THEN conjunct2, THEN conjunct2, THEN conjunct2, THEN conjunct2, THEN conjunct1] v' wf s'
    by (auto simp: root_last_def)
  from 1 2 3 4 show ?thesis by simp
qed

subsection \<open>Update\<close>

lemma map_of_dict_set: "map_of (dict_set k v d) = (map_of d)(k \<mapsto> v)"
  by (induction d) (auto simp: fun_upd_twist)

lemma dict_merge_Nil: "dict_merge a [] = a"
  by (simp add: dict_merge_def)

lemma dict_merge_Cons: "dict_merge a (x # b) = dict_merge (dict_set (fst x) (snd x) a) b"
  by (simp add: dict_merge_def)

lemma map_of_dict_merge:
  "distinct (keys b) \<Longrightarrow> map_of (dict_merge a b) = map_of a ++ map_of b"
proof (induction b arbitrary: a)
  case Nil
  then show ?case by (simp add: dict_merge_Nil)
next
  case (Cons x b)
  obtain k v where x: "x = (k, v)" by (cases x)
  from Cons.prems have kb: "k \<notin> set (keys b)" and db: "distinct (keys b)"
    by (simp_all add: x keys_def)
  then have "k \<notin> dom (map_of b)" by (simp add: dom_map_of_conv_image_fst keys_def)
  then have none: "map_of b k = None" by blast
  have "map_of (dict_merge a (x # b)) = map_of (dict_set k v a) ++ map_of b"
    using Cons.IH [OF db] by (simp add: x dict_merge_Cons)
  also have "\<dots> = (map_of a)(k \<mapsto> v) ++ map_of b"
    by (simp only: map_of_dict_set)
  also have "\<dots> = map_of a ++ map_of ((k, v) # b)"
    using none by (intro ext) (auto simp: map_add_def split: option.splits)
  finally show ?case by (simp only: x)
qed

lemma keys_dict_merge_list:
  "distinct (keys b) \<Longrightarrow>
   keys (dict_merge a b) = keys a @ filter (\<lambda>k. k \<notin> set (keys a)) (keys b)"
proof (induction b arbitrary: a)
  case Nil
  then show ?case by (simp add: dict_merge_Nil keys_def)
next
  case (Cons x b)
  obtain k v where x: "x = (k, v)" by (cases x)
  from Cons.prems have kb: "k \<notin> set (keys b)" and db: "distinct (keys b)"
    by (simp_all add: x keys_def)
  have kx: "keys ((k, v) # b) = k # keys b" by (simp add: keys_def)
  show ?case
  proof (cases "k \<in> set (keys a)")
    case True
    then show ?thesis
      using Cons.IH [OF db, of "dict_set k v a"]
      by (simp add: x dict_merge_Cons keys_dict_set' kx)
  next
    case False
    have "filter (\<lambda>k'. k' \<noteq> k \<and> k' \<notin> set (keys a)) (keys b)
          = filter (\<lambda>k'. k' \<notin> set (keys a)) (keys b)"
      using kb by (intro filter_cong) auto
    with False show ?thesis
      using Cons.IH [OF db, of "dict_set k v a"]
      by (simp add: x dict_merge_Cons keys_dict_set' kx)
  qed
qed

lemma dict_set_Cons_other: "fst p \<noteq> k \<Longrightarrow> dict_set k v (p # a) = p # dict_set k v a"
  by (cases p) simp

lemma dict_merge_Cons_left:
  "fst p \<notin> set (keys b) \<Longrightarrow> dict_merge (p # a) b = p # dict_merge a b"
proof (induction b arbitrary: a)
  case Nil
  then show ?case by (simp add: dict_merge_Nil)
next
  case (Cons x b)
  then have "fst p \<noteq> fst x" "fst p \<notin> set (keys b)" by (auto simp: keys_def)
  then show ?case
    using Cons.IH by (simp add: dict_merge_Cons dict_set_Cons_other)
qed

lemma prepare_items: "map (\<lambda>kv. (fst kv, prepare_item (fst kv) (snd kv))) d = d"
  by (simp add: prepare_item_def)

lemma update_result:
  fixes s :: structured and kwargs :: dict and root_arg :: "pyval option"
  assumes s: "clean_keys (structure_of s)" and kw: "clean_keys kwargs"
    and nr: "''root'' \<notin> set (keys kwargs)"
  defines "slots \<equiv> (case root_arg of None \<Rightarrow> kwargs | Some v \<Rightarrow> kwargs @ [(''root'', v)])"
  shows "update s root_arg kwargs
         = Inr (Structured (root_last (dict_merge (structure_of s) slots))
                  (mapped_attrs s) (metadata s))"
    and "clean_keys slots"
proof -
  have sl: "(case root_arg of None \<Rightarrow> kwargs | Some r \<Rightarrow> dict_set ''root'' r kwargs) = slots"
    using nr by (cases root_arg) (simp_all add: slots_def dict_set_absent)
  have ks: "set (keys slots) \<subseteq> insert ''root'' (set (keys kwargs))"
    by (cases root_arg) (auto simp: slots_def keys_def)
  have nus: "\<not> list_ex (\<lambda>k. startswith k ''_'') (keys slots)"
    using kw ks by (auto simp: clean_keys_def list_ex_iff startswith_def)
  have ds: "distinct (keys slots)"
    using kw nr by (cases root_arg) (auto simp: slots_def clean_keys_def keys_def)
  have nss: "''self'' \<notin> set (keys slots)"
    using kw ks by (auto simp: clean_keys_def)
  from nus ds nss show cs: "clean_keys slots" by (simp add: clean_keys_def)
  have nsk: "''self'' \<notin> set (keys kwargs)" using kw by (simp add: clean_keys_def)
  let ?m = "dict_merge (structure_of s) slots"
  have num: "\<not> list_ex (\<lambda>k. startswith k ''_'') (keys ?m)"
    using s nus by (auto simp: clean_keys_def list_ex_iff keys_dict_merge)
  have nsm: "''self'' \<notin> set (keys ?m)"
    using s nss by (auto simp: clean_keys_def keys_dict_merge)
  have a: "''_mapped_attrs'' \<notin> set (keys slots)" "''_metadata'' \<notin> set (keys slots)"
    using map_of_specials [OF nus] by simp_all
  have "dict_merge
          ([(''_mapped_attrs'', PStrSet (mapped_attrs s)), (''_metadata'', metadata s)]
           @ structure_of s) slots
        = (''_mapped_attrs'', PStrSet (mapped_attrs s)) # (''_metadata'', metadata s) # ?m"
    using a by (simp add: dict_merge_Cons_left)
  moreover have "construct_keeping s ?m
                 = Inr (Structured (root_last ?m) (mapped_attrs s) (metadata s))"
    using num nsm by (rule construct_keeping_clean)
  moreover have "''_mapped_attrs'' \<notin> set (keys ?m)" "''_metadata'' \<notin> set (keys ?m)"
    using map_of_specials [OF num] by simp_all
  ultimately show "update s root_arg kwargs
         = Inr (Structured (root_last ?m) (mapped_attrs s) (metadata s))"
    using nsk by (simp add: update_def sl prepare_items construct_keeping_def)
qed

text \<open>
  Let the keys of the container and the keys of the replacements be pairwise
  different, none beginning with an underscore, none \<^verbatim>\<open>"self"\<close>, and \<^verbatim>\<open>root\<close> given by
  its own parameter. Then \<^verbatim>\<open>_update\<close> returns a container whose slots are the
  slots of the original overlaid with the replacements and the new root, a
  replacement winning over the stored value; the keys other than \<^verbatim>\<open>"root"\<close> keep
  their order and the new ones follow them in the order they were given; and the
  set of mapped attributes and the metadata are those of the original. The
  constructor writes the root after the other keys; the class shows it first, in
  iteration and in the rendering, wherever it is stored. On a container with a
  slot named \<^verbatim>\<open>self\<close> the call raises: see the last section.
\<close>

theorem update_overlays:
  fixes s :: structured and kwargs :: dict and root_arg :: "pyval option"
  assumes "clean_keys (structure_of s)" and "clean_keys kwargs"
    and "''root'' \<notin> set (keys kwargs)"
  shows "\<exists>r. update s root_arg kwargs = Inr r
    \<and> map_of (structure_of r)
        = map_of (structure_of s) ++ map_of kwargs
          ++ (case root_arg of None \<Rightarrow> Map.empty | Some v \<Rightarrow> [''root'' \<mapsto> v])
    \<and> filter (\<lambda>k. k \<noteq> ''root'') (keys (structure_of r))
        = filter (\<lambda>k. k \<noteq> ''root'') (keys (structure_of s))
          @ filter (\<lambda>k. k \<notin> set (keys (structure_of s))) (keys kwargs)
    \<and> distinct (keys (structure_of r))
    \<and> mapped_attrs r = mapped_attrs s \<and> metadata r = metadata s"
proof -
  define slots where
    "slots = (case root_arg of None \<Rightarrow> kwargs | Some v \<Rightarrow> kwargs @ [(''root'', v)])"
  define m where "m = dict_merge (structure_of s) slots"
  define r where "r = Structured (root_last m) (mapped_attrs s) (metadata s)"
  have upd: "update s root_arg kwargs = Inr r" and cs: "clean_keys slots"
    using update_result [OF assms, of root_arg] by (simp_all add: r_def m_def slots_def)
  have ds: "distinct (keys slots)" using cs by (simp add: clean_keys_def)
  have "map_of slots
        = map_of kwargs ++ (case root_arg of None \<Rightarrow> Map.empty | Some v \<Rightarrow> [''root'' \<mapsto> v])"
  proof (cases root_arg)
    case None
    then show ?thesis by (simp add: slots_def)
  next
    case (Some v)
    have "map_of kwargs ''root'' = None"
      using assms(3) by (simp add: map_of_eq_None_iff keys_def)
    then have "[''root'' \<mapsto> v] ++ map_of kwargs = map_of kwargs ++ [''root'' \<mapsto> v]"
      by (intro ext) (auto simp: map_add_def split: option.splits)
    with Some show ?thesis by (simp add: slots_def)
  qed
  then have lookup: "map_of (structure_of r)
        = map_of (structure_of s) ++ map_of kwargs
          ++ (case root_arg of None \<Rightarrow> Map.empty | Some v \<Rightarrow> [''root'' \<mapsto> v])"
    using map_of_dict_merge [OF ds, of "structure_of s"]
    by (simp add: r_def m_def map_of_root_last [abs_def])
  have km: "keys m = keys (structure_of s)
            @ filter (\<lambda>k. k \<notin> set (keys (structure_of s))) (keys slots)"
    unfolding m_def using ds by (rule keys_dict_merge_list)
  have nroot: "filter (\<lambda>k. k \<noteq> ''root'') (keys kwargs) = keys kwargs"
    using assms(3) by (intro filter_True) auto
  have "keys slots = keys kwargs @ (case root_arg of None \<Rightarrow> [] | Some v \<Rightarrow> [''root''])"
    by (cases root_arg) (simp_all add: slots_def keys_def)
  then have fs: "filter (\<lambda>k. k \<noteq> ''root'') (keys slots) = keys kwargs"
    using nroot by (cases root_arg) simp_all
  have "filter (\<lambda>k. k \<noteq> ''root'')
               (filter (\<lambda>k. k \<notin> set (keys (structure_of s))) (keys slots))
        = filter (\<lambda>k. k \<notin> set (keys (structure_of s)))
               (filter (\<lambda>k. k \<noteq> ''root'') (keys slots))"
    by (simp add: conj_commute)
  then have "filter (\<lambda>k. k \<noteq> ''root'')
               (filter (\<lambda>k. k \<notin> set (keys (structure_of s))) (keys slots))
             = filter (\<lambda>k. k \<notin> set (keys (structure_of s))) (keys kwargs)"
    by (simp only: fs)
  then have order: "filter (\<lambda>k. k \<noteq> ''root'') (keys (structure_of r))
        = filter (\<lambda>k. k \<noteq> ''root'') (keys (structure_of s))
          @ filter (\<lambda>k. k \<notin> set (keys (structure_of s))) (keys kwargs)"
    by (simp add: r_def keys_root_last km)
  have "distinct (keys m)"
    using assms(1) ds by (auto simp: km clean_keys_def)
  then have dist: "distinct (keys (structure_of r))"
    by (simp add: r_def distinct_root_last)
  from upd lookup order dist show ?thesis by (auto simp: r_def)
qed

theorem update_overlays_witness:
  "\<exists>r. update (Structured [(''a'', PInt 1), (''b'', PInt 2), (''root'', PInt 0)] {''x''} (PInt 7))
          None [(''b'', PInt 99)] = Inr r
    \<and> map_of (structure_of r) ''a'' = Some (PInt 1)
    \<and> map_of (structure_of r) ''b'' = Some (PInt 99)
    \<and> map_of (structure_of r) ''root'' = Some (PInt 0)
    \<and> filter (\<lambda>k. k \<noteq> ''root'') (keys (structure_of r)) = [''a'', ''b'']
    \<and> mapped_attrs r = {''x''} \<and> metadata r = PInt 7
    \<and> r = Structured [(''a'', PInt 1), (''b'', PInt 99), (''root'', PInt 0)] {''x''} (PInt 7)"
proof -
  let ?s = "Structured [(''a'', PInt 1), (''b'', PInt 2), (''root'', PInt 0)] {''x''} (PInt 7)"
  have 1: "clean_keys (structure_of ?s)" by (simp add: clean_keys_def keys_def startswith_def)
  have 2: "clean_keys [(''b'', PInt 99)]" by (simp add: clean_keys_def keys_def startswith_def)
  have 3: "''root'' \<notin> set (keys [(''b'', PInt 99)])" by (simp add: keys_def)
  from update_overlays [OF 1 2 3, of None] obtain r where
    r: "update ?s None [(''b'', PInt 99)] = Inr r"
       "map_of (structure_of r) = map_of (structure_of ?s) ++ map_of [(''b'', PInt 99)] ++ Map.empty"
       "filter (\<lambda>k. k \<noteq> ''root'') (keys (structure_of r))
        = filter (\<lambda>k. k \<noteq> ''root'') (keys (structure_of ?s))
          @ filter (\<lambda>k. k \<notin> set (keys (structure_of ?s))) (keys [(''b'', PInt 99)])"
       "mapped_attrs r = mapped_attrs ?s" "metadata r = metadata ?s"
    by auto
  from r(2) have "map_of (structure_of r) ''a'' = Some (PInt 1)"
    "map_of (structure_of r) ''b'' = Some (PInt 99)"
    "map_of (structure_of r) ''root'' = Some (PInt 0)"
    by simp_all
  moreover from r(3) have "filter (\<lambda>k. k \<noteq> ''root'') (keys (structure_of r)) = [''a'', ''b'']"
    by (simp add: keys_def)
  moreover have "update ?s None [(''b'', PInt 99)]
      = Inr (Structured [(''a'', PInt 1), (''b'', PInt 99), (''root'', PInt 0)] {''x''} (PInt 7))"
    by (simp add: update_def construct_def dict_merge_def init_def keys_def startswith_def
        prepare_item_def)
  with r(1) have "r = Structured [(''a'', PInt 1), (''b'', PInt 99), (''root'', PInt 0)] {''x''} (PInt 7)"
    by simp
  ultimately show ?thesis using r(1,4,5) by auto
qed

subsection \<open>Mapping\<close>

lemma keys_mapped_items: "keys (mapped_items f d) = keys d"
  by (induction d) (auto simp: keys_def)

lemma map_of_mapped_items: "map_of (mapped_items f d) k = map_option (mapped_val f) (map_of d k)"
  by (induction d) auto

lemma map_tuple_total:
  "(\<forall>x \<in> set xs. func x = Inr (f x)) \<Longrightarrow> map_tuple func xs = Inr (map f xs)"
  by (induction xs) auto

declare map_items.simps(2) [simp del]

lemma map_items_Cons:
  "map_items func r ((k, v) # kvs) =
     (case apply_func func r v of
        Inl e \<Rightarrow> Inl e
      | Inr v' \<Rightarrow>
          (case map_items func r kvs of
             Inl e \<Rightarrow> Inl e
           | Inr kvs' \<Rightarrow> Inr ((k, v') # kvs')))"
  by (simp add: map_items.simps(2))

lemma map_agrees:
  "wf_val v \<Longrightarrow> (\<forall>x \<in> set (leaves_val v). func x = Inr (f x))
     \<Longrightarrow> apply_func func True v = Inr (mapped_val f v)"
  "wf_items d \<Longrightarrow> (\<forall>x \<in> set (leaves_items d). func x = Inr (f x))
     \<Longrightarrow> map_items func True d = Inr (mapped_items f d)"
proof (induction f v and f d rule: mapped_val_mapped_items.induct)
  case (1 f d ma md)
  then have items: "map_items func True d = Inr (mapped_items f d)" by simp
  from "1.prems" have "\<not> list_ex (\<lambda>k. startswith k ''_'') (keys (mapped_items f d))"
    "''self'' \<notin> set (keys (mapped_items f d))"
    by (simp_all add: keys_mapped_items)
  then have "construct (mapped_items f d) = Inr (Structured (root_last (mapped_items f d)) {} PNone)"
    by (rule construct_clean)
  with items show ?case by (simp add: map_structured.simps)
next
  case (2 f xs)
  then have "map_tuple func xs = Inr (map f xs)" by (intro map_tuple_total) simp
  then show ?case by simp
next
  case (5 f k v kvs)
  then show ?case by (simp add: map_items_Cons)
qed simp_all

lemma map_structured_agrees:
  assumes "well_formed s" and "\<forall>x \<in> set (leaves s). func x = Inr (f x)"
  shows "map_structured func True s
         = Inr (Structured (root_last (mapped_items f (structure_of s))) {} PNone)"
proof -
  have "apply_func func True (PStructured s) = Inr (mapped_val f (PStructured s))"
    using assms by (intro map_agrees(1)) simp_all
  then show ?thesis by (cases s) (auto split: sum.splits)
qed

lemma wf_items_iff: "wf_items d \<longleftrightarrow> (\<forall>kv \<in> set d. wf_val (snd kv))"
  by (induction d) auto

lemma set_root_last: "set (root_last d) \<subseteq> set d"
  by (cases "map_of d ''root''") (auto simp: root_last_def dest: map_of_SomeD)

lemma wf_items_root_last: "wf_items d \<Longrightarrow> wf_items (root_last d)"
  using set_root_last [of d] by (auto simp: wf_items_iff)

lemma clean_keys_root_last: "clean_keys d \<Longrightarrow> clean_keys (root_last d)"
  by (simp add: clean_keys_def distinct_root_last list_ex_iff set_keys_root_last)

lemma is_leaf_cases:
  "is_leaf PNone" "is_leaf (PInt i)" "is_leaf (PStr cs)" "is_leaf (PList xs)" "is_leaf (PDict d)"
  "is_leaf (PStrSet S)" "\<not> is_leaf (PTuple xs)" "\<not> is_leaf (PStructured s)"
  by (simp_all add: is_leaf_def)

lemma mapped_val_leaf: "is_leaf w \<Longrightarrow> mapped_val g w = g w"
  by (cases w) (simp_all add: is_leaf_def)

lemma leaves_val_leaf: "is_leaf w \<Longrightarrow> leaves_val w = [w]"
  by (cases w) (simp_all add: is_leaf_def)

lemma leaves_items_lookup:
  "map_of d k = Some v \<Longrightarrow> set (leaves_val v) \<subseteq> set (leaves_items d)"
  by (induction d) (auto split: if_splits)

lemma mapped_leafwise:
  "wf_val v \<Longrightarrow> (\<forall>x \<in> set (leaves_val v). R x (f x)) \<Longrightarrow> leafwise R v (mapped_val f v)"
  "wf_items d \<Longrightarrow> (\<forall>x \<in> set (leaves_items d). R x (f x))
     \<Longrightarrow> (\<forall>k v. map_of d k = Some v \<longrightarrow> leafwise R v (mapped_val f v))"
proof (induction f v and f d rule: mapped_val_mapped_items.induct)
  case (1 f d ma md)
  let ?s = "Structured d ma md"
  let ?r = "Structured (root_last (mapped_items f d)) {} PNone"
  from "1.prems" have dk: "distinct (keys d)" and wi: "wf_items d" by simp_all
  have "set (keys (structure_of ?r)) = set (keys (structure_of ?s))"
    by (simp add: set_keys_root_last keys_mapped_items)
  moreover have "distinct (keys (structure_of ?r))"
    using dk by (simp add: distinct_root_last keys_mapped_items)
  moreover have "filter (\<lambda>k. k \<noteq> ''root'') (keys (structure_of ?r))
                 = filter (\<lambda>k. k \<noteq> ''root'') (keys (structure_of ?s))"
    by (simp add: keys_root_last keys_mapped_items)
  moreover have "\<forall>k v. map_of (structure_of ?s) k = Some v \<longrightarrow>
       (\<exists>w. map_of (structure_of ?r) k = Some w \<and> leafwise R v w)"
  proof (intro allI impI)
    fix k v assume kv: "map_of (structure_of ?s) k = Some v"
    then have "map_of (structure_of ?r) k = Some (mapped_val f v)"
      by (simp add: map_of_root_last map_of_mapped_items)
    moreover have "leafwise R v (mapped_val f v)"
      using "1.IH" wi "1.prems"(2) kv by simp
    ultimately show "\<exists>w. map_of (structure_of ?r) k = Some w \<and> leafwise R v w" by blast
  qed
  ultimately have "leafwise R (PStructured ?s) (PStructured ?r)"
    by (rule leafwise.nested)
  then show ?case by simp
next
  case (2 f xs)
  then have "list_all2 R xs (map f xs)"
    by (simp add: list_all2_map2 list_all2_same)
  then show ?case by (simp add: leafwise.group)
next
  case (5 f k v kvs)
  show ?case
  proof (intro allI impI)
    fix k' v' assume look: "map_of ((k, v) # kvs) k' = Some v'"
    show "leafwise R v' (mapped_val f v')"
    proof (cases "k' = k")
      case True
      with look have "v' = v" by simp
      with "5.IH"(1) "5.prems" show ?thesis by simp
    next
      case False
      with look have "map_of kvs k' = Some v'" by simp
      with "5.IH"(2) "5.prems" show ?thesis by simp
    qed
  qed
qed (simp_all add: leafwise.leaf is_leaf_cases)

lemma leaf_wf: "is_leaf w \<Longrightarrow> wf_val w"
  by (cases w) (simp_all add: is_leaf_def)

lemma wf_mapped:
  "wf_val v \<Longrightarrow> (\<forall>x \<in> set (leaves_val v). is_leaf (f x)) \<Longrightarrow> wf_val (mapped_val f v)"
  "wf_items d \<Longrightarrow> (\<forall>x \<in> set (leaves_items d). is_leaf (f x)) \<Longrightarrow> wf_items (mapped_items f d)"
proof (induction f v and f d rule: mapped_val_mapped_items.induct)
  case (1 f d ma md)
  then have "wf_items (mapped_items f d)" by simp
  then have "wf_items (root_last (mapped_items f d))" by (rule wf_items_root_last)
  moreover have "clean_keys (mapped_items f d)"
    using "1.prems"(1) by (simp add: clean_keys_def keys_mapped_items)
  then have "clean_keys (root_last (mapped_items f d))" by (rule clean_keys_root_last)
  ultimately show ?case by (simp add: clean_keys_def)
qed (simp_all add: leaf_wf)

lemma mapped_items_append:
  "mapped_items f (a @ b) = mapped_items f a @ mapped_items f b"
  by (induction a) auto

lemma mapped_items_filter:
  "mapped_items f (filter (\<lambda>kv. P (fst kv)) d) = filter (\<lambda>kv. P (fst kv)) (mapped_items f d)"
  by (induction d) auto

lemma mapped_items_root_last: "mapped_items f (root_last d) = root_last (mapped_items f d)"
proof -
  have "mapped_items f (filter (\<lambda>kv. fst kv \<noteq> ''root'') d)
        = filter (\<lambda>kv. fst kv \<noteq> ''root'') (mapped_items f d)"
    using mapped_items_filter [of f "\<lambda>k. k \<noteq> ''root''" d] by simp
  then show ?thesis
    by (cases "map_of d ''root''")
       (simp_all add: root_last_def mapped_items_append map_of_mapped_items)
qed

lemma root_last_idem: "root_last (root_last d) = root_last d"
proof -
  have "filter (\<lambda>kv. fst kv \<noteq> ''root'') (root_last d) = filter (\<lambda>kv. fst kv \<noteq> ''root'') d"
    by (cases "map_of d ''root''") (simp_all add: root_last_def)
  then show ?thesis
    using map_of_root_last [of d "''root''"] by (simp add: root_last_def [of "root_last d"] root_last_def [of d, symmetric])
qed

lemma mapped_compose:
  "(\<forall>x \<in> set (leaves_val v). is_leaf (f x))
     \<Longrightarrow> mapped_val g (mapped_val f v) = mapped_val (\<lambda>x. g (f x)) v"
  "(\<forall>x \<in> set (leaves_items d). is_leaf (f x))
     \<Longrightarrow> mapped_items g (mapped_items f d) = mapped_items (\<lambda>x. g (f x)) d"
proof (induction f v and f d rule: mapped_val_mapped_items.induct)
  case (1 f d ma md)
  then have "mapped_items g (mapped_items f d) = mapped_items (\<lambda>x. g (f x)) d" by simp
  then show ?case
    by (simp add: mapped_items_root_last root_last_idem)
next
  case (2 f xs)
  then show ?case by (simp add: comp_def)
next
  case (5 f k v kvs)
  then show ?case by simp
qed (simp_all add: mapped_val_leaf)

text \<open>
  C6, as amended. Let \<open>f\<close> return a leaf, neither a group nor a container, on
  every leaf of a well-formed container. Then mapping \<open>f\<close> with recursion and
  mapping \<open>g\<close> over the result both succeed, and the container they yield is the
  one that mapping the composition \<^verbatim>\<open>lambda x: g(f(x))\<close> yields. Nothing is asked of
  \<open>g\<close>.
\<close>

theorem map_composition:
  assumes "well_formed s" and "\<forall>x \<in> set (leaves s). is_leaf (f x)"
  shows "\<exists>r1 r2. map_structured (\<lambda>x. Inr (f x)) True s = Inr r1
           \<and> map_structured (\<lambda>x. Inr (g x)) True r1 = Inr r2
           \<and> map_structured (\<lambda>x. Inr (g (f x))) True s = Inr r2"
proof -
  let ?r1 = "Structured (root_last (mapped_items f (structure_of s))) {} PNone"
  let ?r2 = "Structured (root_last (mapped_items (\<lambda>x. g (f x)) (structure_of s))) {} PNone"
  have 1: "map_structured (\<lambda>x. Inr (f x)) True s = Inr ?r1"
    using assms(1) by (intro map_structured_agrees) simp_all
  have 3: "map_structured (\<lambda>x. Inr (g (f x))) True s = Inr ?r2"
    using assms(1) by (intro map_structured_agrees) simp_all
  have lv: "\<forall>x \<in> set (leaves_val (PStructured s)). is_leaf (f x)" using assms(2) by simp
  have "wf_val (mapped_val f (PStructured s))"
    using assms(1) lv by (intro wf_mapped(1)) simp_all
  then have wf1: "well_formed ?r1" by (cases s) simp
  have "mapped_val g (mapped_val f (PStructured s)) = mapped_val (\<lambda>x. g (f x)) (PStructured s)"
    using lv by (rule mapped_compose(1))
  then have eq: "root_last (mapped_items g (structure_of ?r1))
                 = root_last (mapped_items (\<lambda>x. g (f x)) (structure_of s))"
    by (cases s) simp
  have "map_structured (\<lambda>x. Inr (g x)) True ?r1
        = Inr (Structured (root_last (mapped_items g (structure_of ?r1))) {} PNone)"
    using wf1 by (intro map_structured_agrees) simp_all
  with eq have 2: "map_structured (\<lambda>x. Inr (g x)) True ?r1 = Inr ?r2" by simp
  from 1 2 3 show ?thesis by blast
qed

theorem map_composition_witness:
  "\<exists>r1 r2.
     map_structured (\<lambda>x. Inr (case x of PInt i \<Rightarrow> PInt (i + 1) | _ \<Rightarrow> PNone)) True
       (Structured [(''b'', PInt 3), (''c'', PTuple [PInt 4, PInt 5]), (''root'', PTuple [PInt 1, PInt 2])]
          {} PNone) = Inr r1
     \<and> map_structured (\<lambda>x. Inr (PList [x])) True r1 = Inr r2
     \<and> map_structured (\<lambda>x. Inr (PList [case x of PInt i \<Rightarrow> PInt (i + 1) | _ \<Rightarrow> PNone])) True
       (Structured [(''b'', PInt 3), (''c'', PTuple [PInt 4, PInt 5]), (''root'', PTuple [PInt 1, PInt 2])]
          {} PNone) = Inr r2"
proof -
  let ?s = "Structured [(''b'', PInt 3), (''c'', PTuple [PInt 4, PInt 5]),
              (''root'', PTuple [PInt 1, PInt 2])] {} PNone"
  let ?f = "\<lambda>x. case x of PInt i \<Rightarrow> PInt (i + 1) | _ \<Rightarrow> PNone"
  have 1: "well_formed ?s" by (simp add: keys_def startswith_def)
  have 2: "\<forall>x \<in> set (leaves ?s). is_leaf (?f x)" by (simp add: is_leaf_def)
  show ?thesis
    using map_composition [OF 1 2, of "\<lambda>x. PList [x]"] by simp
qed

text \<open>
  The claim C6 as stated asks that \<open>g (f x)\<close> be a leaf, which is not enough. With
  \<^verbatim>\<open>f = lambda x: (x, x)\<close> and \<open>g\<close> returning \<^verbatim>\<open>0\<close> on a tuple and \<^verbatim>\<open>1\<close> on
  anything else, \<open>g (f x)\<close> is the leaf \<^verbatim>\<open>0\<close> for every \<open>x\<close>; but the second map
  goes through the tuple that \<open>f\<close> returned, item by item, so the container with
  \<^verbatim>\<open>a=5\<close> maps to \<^verbatim>\<open>a=(1, 1)\<close> in two steps and to \<^verbatim>\<open>a=0\<close> in one, and the two
  results are not equal.
\<close>

theorem map_composition_counterexample:
  "(\<forall>x. is_leaf ((case (PTuple [x, x]) of PTuple ys \<Rightarrow> PInt 0 | _ \<Rightarrow> PInt 1)))
   \<and> map_structured (\<lambda>x. Inr (PTuple [x, x])) True (Structured [(''a'', PInt 5)] {} PNone)
       = Inr (Structured [(''a'', PTuple [PInt 5, PInt 5])] {} PNone)
   \<and> map_structured (\<lambda>y. Inr (case y of PTuple ys \<Rightarrow> PInt 0 | _ \<Rightarrow> PInt 1)) True
        (Structured [(''a'', PTuple [PInt 5, PInt 5])] {} PNone)
       = Inr (Structured [(''a'', PTuple [PInt 1, PInt 1])] {} PNone)
   \<and> map_structured (\<lambda>x. Inr (case (PTuple [x, x]) of PTuple ys \<Rightarrow> PInt 0 | _ \<Rightarrow> PInt 1)) True
        (Structured [(''a'', PInt 5)] {} PNone)
       = Inr (Structured [(''a'', PInt 0)] {} PNone)
   \<and> \<not> structured_eq (Structured [(''a'', PTuple [PInt 1, PInt 1])] {} PNone)
        (PStructured (Structured [(''a'', PInt 0)] {} PNone))"
  by (simp add: is_leaf_def map_structured.simps map_items_Cons construct_def init_def keys_def
      startswith_def prepare_item_def structured_eq_def dict_eq_def)

subsection \<open>Attribute read\<close>

text \<open>
  C5, as amended. For a name \<open>n\<close> without a leading underscore, \<^verbatim>\<open>__getattr__\<close> returns the
  value stored under \<open>n\<close> when \<open>n\<close> is a key of the structure. Otherwise, when
  \<open>n\<close> is a mapped attribute of a well-formed container and every leaf has the
  attribute \<open>n\<close>, it returns a new container, with no mapped attributes and no
  metadata, that is the original with every leaf replaced by its attribute \<open>n\<close>:
  inside nested containers as well, and item by item in a group. Otherwise it
  raises \<^verbatim>\<open>AttributeError\<close> (the spec's AttributeNotFound).
\<close>

theorem getattr_cases:
  assumes "\<not> startswith n ''_''"
  shows "(map_of (structure_of s) n = Some v \<longrightarrow> getattr G s n = Inr v)
    \<and> (map_of (structure_of s) n = None \<and> n \<in> mapped_attrs s \<and> well_formed s
         \<and> (\<forall>x \<in> set (leaves s). \<exists>y. G x n = Inr y)
        \<longrightarrow> (\<exists>r. getattr G s n = Inr (PStructured r)
                 \<and> leafwise (\<lambda>x y. G x n = Inr y) (PStructured s) (PStructured r)
                 \<and> mapped_attrs r = {} \<and> metadata r = PNone))
    \<and> (map_of (structure_of s) n = None \<and> n \<notin> mapped_attrs s
        \<longrightarrow> getattr G s n = Inl AttributeError)"
proof (intro conjI impI)
  assume "map_of (structure_of s) n = Some v"
  with assms show "getattr G s n = Inr v" by (simp add: getattr_def)
next
  assume "map_of (structure_of s) n = None \<and> n \<notin> mapped_attrs s"
  with assms show "getattr G s n = Inl AttributeError" by (simp add: getattr_def)
next
  assume a: "map_of (structure_of s) n = None \<and> n \<in> mapped_attrs s \<and> well_formed s
         \<and> (\<forall>x \<in> set (leaves s). \<exists>y. G x n = Inr y)"
  define f where "f x = (case G x n of Inr y \<Rightarrow> y | Inl e \<Rightarrow> PNone)" for x
  have ok: "\<forall>x \<in> set (leaves s). G x n = Inr (f x)"
    using a by (auto simp: f_def)
  let ?r = "Structured (root_last (mapped_items f (structure_of s))) {} PNone"
  have "map_structured (\<lambda>x. G x n) True s = Inr ?r"
    using a ok by (intro map_structured_agrees) simp_all
  then have 1: "getattr G s n = Inr (PStructured ?r)"
    using a assms by (simp add: getattr_def)
  have "leafwise (\<lambda>x y. G x n = Inr y) (PStructured s) (mapped_val f (PStructured s))"
    using a ok by (intro mapped_leafwise(1)) simp_all
  then have 2: "leafwise (\<lambda>x y. G x n = Inr y) (PStructured s) (PStructured ?r)"
    by (cases s) simp
  from 1 2 show "\<exists>r. getattr G s n = Inr (PStructured r)
                 \<and> leafwise (\<lambda>x y. G x n = Inr y) (PStructured s) (PStructured r)
                 \<and> mapped_attrs r = {} \<and> metadata r = PNone"
    by (intro exI [of _ ?r]) simp
qed

theorem getattr_cases_witness:
  "getattr (\<lambda>x a. if a = ''real'' then (case x of PInt i \<Rightarrow> Inr (PInt i) | _ \<Rightarrow> Inl AttributeError)
                    else Inl AttributeError)
     (Structured [(''a'', PInt 1), (''b'', PTuple [PInt 2, PInt 3])] {''real''} PNone) ''a''
     = Inr (PInt 1)
   \<and> (\<exists>r. getattr (\<lambda>x a. if a = ''real'' then (case x of PInt i \<Rightarrow> Inr (PInt i) | _ \<Rightarrow> Inl AttributeError)
                    else Inl AttributeError)
          (Structured [(''a'', PInt 1), (''b'', PTuple [PInt 2, PInt 3])] {''real''} PNone) ''real''
          = Inr (PStructured r)
        \<and> leafwise (\<lambda>x y. (case x of PInt i \<Rightarrow> Inr (PInt i) | _ \<Rightarrow> Inl AttributeError) = Inr y)
            (PStructured (Structured [(''a'', PInt 1), (''b'', PTuple [PInt 2, PInt 3])] {''real''} PNone))
            (PStructured r))
   \<and> getattr (\<lambda>x a. if a = ''real'' then (case x of PInt i \<Rightarrow> Inr (PInt i) | _ \<Rightarrow> Inl AttributeError)
                    else Inl AttributeError)
     (Structured [(''a'', PInt 1), (''b'', PTuple [PInt 2, PInt 3])] {''real''} PNone) ''zz''
     = Inl AttributeError
   \<and> getattr (\<lambda>x a. if a = ''real'' then (case x of PInt i \<Rightarrow> Inr (PInt i) | _ \<Rightarrow> Inl AttributeError)
                    else Inl AttributeError)
     (Structured [(''a'', PInt 1), (''b'', PTuple [PInt 2, PInt 3])] {''real''} PNone) ''real''
     = Inr (PStructured (Structured [(''a'', PInt 1), (''b'', PTuple [PInt 2, PInt 3])] {} PNone))"
proof -
  let ?G = "\<lambda>x a. if a = ''real'' then (case x of PInt i \<Rightarrow> Inr (PInt i) | _ \<Rightarrow> Inl AttributeError)
                    else Inl AttributeError"
  let ?s = "Structured [(''a'', PInt 1), (''b'', PTuple [PInt 2, PInt 3])] {''real''} PNone"
  have u: "\<not> startswith ''a'' ''_''" "\<not> startswith ''real'' ''_''" "\<not> startswith ''zz'' ''_''"
    by (simp_all add: startswith_def)
  have w: "well_formed ?s" by (simp add: keys_def startswith_def)
  have l: "\<forall>x \<in> set (leaves ?s). \<exists>y. ?G x ''real'' = Inr y" by simp
  have 1: "getattr ?G ?s ''a'' = Inr (PInt 1)"
    using getattr_cases [OF u(1), of ?s "PInt 1" ?G] by simp
  have 2: "\<exists>r. getattr ?G ?s ''real'' = Inr (PStructured r)
        \<and> leafwise (\<lambda>x y. ?G x ''real'' = Inr y) (PStructured ?s) (PStructured r)"
    using getattr_cases [OF u(2), of ?s _ ?G] w l by auto
  have 3: "getattr ?G ?s ''zz'' = Inl AttributeError"
    using getattr_cases [OF u(3), of ?s _ ?G] by simp
  have 4: "getattr ?G ?s ''real''
           = Inr (PStructured (Structured [(''a'', PInt 1), (''b'', PTuple [PInt 2, PInt 3])] {} PNone))"
    by (simp add: getattr_def startswith_def map_structured.simps map_items_Cons construct_def
        init_def keys_def prepare_item_def)
  from 1 2 3 4 show ?thesis by simp
qed


text \<open>
  The claim C5 as stated fails: a mapped attribute does not always give a new
  container. When a leaf does not have the attribute, the exception of the
  built-in \<^verbatim>\<open>getattr\<close> ends the call: below the string under \<^verbatim>\<open>root\<close> has no
  attribute \<^verbatim>\<open>real\<close>, and the read of the mapped attribute \<^verbatim>\<open>real\<close> raises
  \<^verbatim>\<open>AttributeError\<close>. And on a container with a slot named \<^verbatim>\<open>self\<close>, all of whose
  leaves have the attribute, the call of the constructor in \<^verbatim>\<open>_map\<close> raises
  \<^verbatim>\<open>TypeError\<close>.
\<close>

theorem getattr_mapped_can_fail:
  "getattr (\<lambda>x a. if a = ''real'' then (case x of PInt i \<Rightarrow> Inr (PInt i) | _ \<Rightarrow> Inl AttributeError)
                    else Inl AttributeError)
     (Structured [(''a'', PInt 1), (''b'', PTuple [PInt 2, PInt 3]), (''root'', PStr ''x'')] {''real''} PNone)
     ''real''
   = Inl AttributeError
   \<and> ''real'' \<in> mapped_attrs
        (Structured [(''a'', PInt 1), (''b'', PTuple [PInt 2, PInt 3]), (''root'', PStr ''x'')] {''real''} PNone)
   \<and> map_of (structure_of
        (Structured [(''a'', PInt 1), (''b'', PTuple [PInt 2, PInt 3]), (''root'', PStr ''x'')] {''real''} PNone))
        ''real'' = None
   \<and> getattr (\<lambda>x a. if a = ''real'' then (case x of PInt i \<Rightarrow> Inr (PInt i) | _ \<Rightarrow> Inl AttributeError)
                    else Inl AttributeError)
     (Structured [(''a'', PInt 1), (''self'', PInt 2)] {''real''} PNone) ''real''
   = Inl TypeError"
  by (simp add: getattr_def startswith_def map_structured.simps map_items_Cons construct_def
      keys_def)

section \<open>A slot named self\<close>

text \<open>
  The bracket write accepts the key \<^verbatim>\<open>"self"\<close>, an identifier without a leading
  underscore, and so does the attribute write. A container that has the key cannot
  be passed through the constructor again: the keyword \<^verbatim>\<open>self\<close> is a second value
  for the first parameter of \<^verbatim>\<open>__init__\<close>, and \<^verbatim>\<open>_update\<close>, \<^verbatim>\<open>_map\<close> and
  \<^verbatim>\<open>_simplify\<close>, which unpack the structure into that call, raise \<^verbatim>\<open>TypeError\<close>.
\<close>

lemma setitem_self:
  "setitem xs xc s (PStr ''self'') v = Inr (set_structure s (dict_set ''self'' v (structure_of s)))"
  by (simp add: setitem_def is_xid_start_def is_xid_continue_def ascii_letter_def startswith_def
      prepare_item_def)

lemma construct_self: "''self'' \<in> set (keys d) \<Longrightarrow> construct d = Inl TypeError"
  by (simp add: construct_def)

lemma update_self:
  assumes "''self'' \<in> set (keys (structure_of s))"
  shows "update s r kwargs = Inl TypeError"
proof (cases "''self'' \<in> set (keys kwargs)")
  case True
  then show ?thesis by (simp add: update_def)
next
  case False
  let ?slots = "case r of None \<Rightarrow> kwargs | Some v \<Rightarrow> dict_set ''root'' v kwargs"
  let ?merged = "dict_merge
      ([(''_mapped_attrs'', PStrSet (mapped_attrs s)), (''_metadata'', metadata s)] @ structure_of s)
      (map (\<lambda>kv. (fst kv, prepare_item (fst kv) (snd kv))) ?slots)"
  have "''self'' \<in> set (keys ?merged)"
    using assms by (simp add: keys_dict_merge keys_simps)
  then have "construct ?merged = Inl TypeError" by (rule construct_self)
  with False show ?thesis by (simp add: update_def Let_def)
qed

text \<open>
  C7. The claim holds on well-formed containers (\<open>update_overlays\<close> above) and
  fails on a container the class lets one build: after \<^verbatim>\<open>s["self"] = 1\<close> on the
  container with the slot \<^verbatim>\<open>b=2\<close>, the call \<^verbatim>\<open>s._update(b=99)\<close> of the claim raises
  \<^verbatim>\<open>TypeError\<close> where the claim promises a new container with \<^verbatim>\<open>b=99\<close>.
\<close>

theorem update_raises_on_self_slot:
  "(\<forall>xs xc. setitem xs xc (Structured [(''b'', PInt 2)] {} PNone) (PStr ''self'') (PInt 1)
      = Inr (Structured [(''b'', PInt 2), (''self'', PInt 1)] {} PNone))
   \<and> update (Structured [(''b'', PInt 2), (''self'', PInt 1)] {} PNone) None [(''b'', PInt 99)]
       = Inl TypeError"
  by (simp add: setitem_self set_structure_def update_self keys_def)

text \<open>
  C10. The claim holds on well-formed containers
  (\<open>simplify_recurse_unwraps_nested\<close> above) and fails on a container the class
  lets one build. The container below has structure; its slot \<^verbatim>\<open>a\<close> holds a container
  whose only key is \<^verbatim>\<open>"root"\<close>, with the root \<^verbatim>\<open>5\<close>; and after \<^verbatim>\<open>s["self"] = 1\<close> the
  call \<^verbatim>\<open>s._simplify(recurse=True, unwrap=False)\<close> raises \<^verbatim>\<open>TypeError\<close>, in the call of
  the constructor, where the claim promises a container with \<^verbatim>\<open>a=5\<close>. The walk and
  the recursion did their part: with \<^verbatim>\<open>inplace=True\<close>, which calls no constructor
  here, the slot \<^verbatim>\<open>a\<close> holds \<^verbatim>\<open>5\<close>.
\<close>

theorem simplify_raises_on_self_slot:
  "(\<forall>xs xc. setitem xs xc
        (Structured [(''a'', PStructured (Structured [(''root'', PInt 5)] {} PNone))] {} PNone)
        (PStr ''self'') (PInt 1)
      = Inr (Structured [(''a'', PStructured (Structured [(''root'', PInt 5)] {} PNone)),
                         (''self'', PInt 1)] {} PNone))
   \<and> has_structure (Structured [(''a'', PStructured (Structured [(''root'', PInt 5)] {} PNone)),
                         (''self'', PInt 1)] {} PNone)
   \<and> map_of (structure_of (Structured [(''a'', PStructured (Structured [(''root'', PInt 5)] {} PNone)),
                         (''self'', PInt 1)] {} PNone)) ''a''
       = Some (PStructured (Structured [(''root'', PInt 5)] {} PNone))
   \<and> \<not> has_structure (Structured [(''root'', PInt 5)] {} PNone)
   \<and> root (Structured [(''root'', PInt 5)] {} PNone) = Some (PInt 5)
   \<and> \<not> is_structured (PInt 5)
   \<and> simplify (Structured [(''a'', PStructured (Structured [(''root'', PInt 5)] {} PNone)),
                         (''self'', PInt 1)] {} PNone) True False False
       = (Inl TypeError,
          Structured [(''a'', PStructured (Structured [(''root'', PInt 5)] {} PNone)),
                      (''self'', PInt 1)] {} PNone)
   \<and> fst (simplify (Structured [(''a'', PStructured (Structured [(''root'', PInt 5)] {} PNone)),
                         (''self'', PInt 1)] {} PNone) True False True)
       = Inr (PStructured (Structured [(''a'', PInt 5), (''self'', PInt 1)] {} PNone))"
  by (simp add: setitem_self set_structure_def has_structure_def root_def keys_def
      simplify.simps(1) unwrap_loop.simps has_root_def simplify_items_Cons simplify_slot_def
      construct_keeping_def construct_def)

text \<open>\<^verbatim>\<open>_map\<close> fails in the same way.\<close>

lemma map_raises_on_self_slot:
  "map_structured (\<lambda>x. Inr x) True (Structured [(''self'', PInt 1)] {} PNone) = Inl TypeError"
  by (simp add: map_structured.simps map_items_Cons construct_def keys_def)

end
